theory Spec2Isabelle
  imports Main "HOL-Library.Word" "HOL-Library.Monad_Syntax"
begin

section \<open>Data model of O3SerialWriter.h\<close>

text \<open>
  \<open>enum class O3LogLevel : uint8_t\<close>: an object of the enumeration holds any value of
  its underlying type, so a level is an 8-bit word and the enumerators are the five
  named values.
\<close>

type_synonym O3LogLevel = "8 word"

abbreviation Debug :: O3LogLevel where "Debug \<equiv> 0"
abbreviation Info :: O3LogLevel where "Info \<equiv> 1"
abbreviation Warn :: O3LogLevel where "Warn \<equiv> 2"
abbreviation Error :: O3LogLevel where "Error \<equiv> 3"
abbreviation NoneLevel :: O3LogLevel where "NoneLevel \<equiv> 255"

text \<open>The terminator of a C string.\<close>

abbreviation NUL :: char where "NUL \<equiv> CHR 0x00"

text \<open>
  A \<open>const char*\<close> argument is \<open>None\<close> for the null pointer and otherwise the
  characters it points to; reading stops at the first terminator, which follows the last
  character of the list when the list holds none.
\<close>

definition cchar :: "string \<Rightarrow> nat \<Rightarrow> char" where
  "cchar v i = (if i < length v then v ! i else NUL)"

definition cstr :: "string \<Rightarrow> string" where
  "cstr v = takeWhile (\<lambda>c. c \<noteq> NUL) v"

text \<open>
  The values handed to \<open>Stream::print\<close>: a character, a C string, an
  \<open>unsigned long\<close> (what \<open>millis()\<close> returns, 32 bits) and a \<open>long\<close>
  (to which \<open>int\<close> arguments are widened).
\<close>

datatype printable = Chr char | Str string | ULong "32 word" | SLong "32 word"

text \<open>The calls the writer makes on its sink, in the order they are made.\<close>

datatype sink_call = Print printable | Println | PrintlnVal printable

record O3SerialWriterOptions =
  opt_prefix :: "string option"
  opt_showMillis :: bool
  opt_showLevel :: bool
  opt_minLevel :: O3LogLevel
  opt_partSeparator :: "string option"

text \<open>
  The object. \<open>out\<close> is the \<open>Stream*\<close>: \<open>None\<close> is \<open>nullptr\<close>, and an
  attached stream is represented by the calls it has received so far.
\<close>

record O3SerialWriter =
  out :: "sink_call list option"
  enabled :: bool
  showMillis :: bool
  showLevel :: bool
  minLevel :: O3LogLevel
  defaultLevel :: O3LogLevel
  lineOpen :: bool
  activeLevel :: O3LogLevel
  prefixBuffer :: "char list"
  partSeparatorBuffer :: "char list"

definition prefixMaxLen :: nat where "prefixMaxLen = 32"
definition partSepMaxLen :: nat where "partSepMaxLen = 8"

text \<open>The default member initialisers; the options struct's defaults likewise.\<close>

definition O3SerialWriter_init :: O3SerialWriter where
  "O3SerialWriter_init =
     \<lparr> out = None, enabled = True, showMillis = True, showLevel = True,
       minLevel = Debug, defaultLevel = Info, lineOpen = False, activeLevel = Info,
       prefixBuffer = replicate prefixMaxLen NUL,
       partSeparatorBuffer = CHR '' '' # replicate (partSepMaxLen - 1) NUL \<rparr>"

definition O3SerialWriterOptions_init :: O3SerialWriterOptions where
  "O3SerialWriterOptions_init =
     \<lparr> opt_prefix = Some [], opt_showMillis = True, opt_showLevel = True,
       opt_minLevel = Debug, opt_partSeparator = Some '' '' \<rparr>"

section \<open>The sink\<close>

text \<open>
  Every \<open>out->...\<close> dereferences the pointer: on \<open>nullptr\<close> the call has no defined
  result, which is \<open>None\<close> here. Printing a buffer that holds no terminator would
  read past its end and is \<open>None\<close> as well.
\<close>

definition sink :: "sink_call \<Rightarrow> O3SerialWriter \<Rightarrow> O3SerialWriter option" where
  "sink c s = (case out s of None \<Rightarrow> None | Some tr \<Rightarrow> Some (s\<lparr>out := Some (tr @ [c])\<rparr>))"

definition sink_buffer :: "char list \<Rightarrow> O3SerialWriter \<Rightarrow> O3SerialWriter option" where
  "sink_buffer buf s = (if NUL \<in> set buf then sink (Print (Str (cstr buf))) s else None)"

text \<open>
  Modelled from the spec: the host's text conversions (``write a primitive numeric value
  converted to text'', ``write a line break''), which belong to the Arduino core and not
  to the repository: numbers are printed in base 10, most significant digit first, a
  negative \<open>long\<close> with a leading minus sign, and a line break is CR LF.
\<close>

definition digit_char :: "nat \<Rightarrow> char" where
  "digit_char d = ''0123456789'' ! d"

function printNumber :: "nat \<Rightarrow> string \<Rightarrow> string" where
  "printNumber n acc =
     (if n div 10 \<noteq> 0 then printNumber (n div 10) (digit_char (n mod 10) # acc)
      else digit_char (n mod 10) # acc)"
  by pat_completeness auto
termination
  by (relation "measure fst") auto

declare printNumber.simps [simp del]

definition lineBreak :: string where
  "lineBreak = [CHR 0x0D, CHR 0x0A]"

fun toText :: "printable \<Rightarrow> string" where
  "toText (Chr c) = [c]"
| "toText (Str v) = cstr v"
| "toText (ULong n) = printNumber (unat n) []"
| "toText (SLong n) =
     (if sint n < 0 then CHR ''-'' # printNumber (unat (- n)) [] else printNumber (unat n) [])"

fun call_bytes :: "sink_call \<Rightarrow> string" where
  "call_bytes (Print v) = toText v"
| "call_bytes Println = lineBreak"
| "call_bytes (PrintlnVal v) = toText v @ lineBreak"

definition sink_bytes :: "sink_call list \<Rightarrow> string" where
  "sink_bytes tr = concat (map call_bytes tr)"

fun is_break :: "sink_call \<Rightarrow> bool" where
  "is_break (Print v) = False"
| "is_break Println = True"
| "is_break (PrintlnVal v) = True"

section \<open>Private members\<close>

text \<open>
  The copy loop of \<open>copyPrefix\<close> and \<open>copyPartSeparator\<close>:
  \<open>for (; i + 1 < cap && value[i] != '\0'; i++) buffer[i] = value[i];\<close>
  It returns the buffer and the index at which the loop stopped.
\<close>

function copyLoop :: "nat \<Rightarrow> string \<Rightarrow> nat \<Rightarrow> char list \<Rightarrow> char list \<times> nat" where
  "copyLoop cap v i buf =
     (if i + 1 < cap \<and> cchar v i \<noteq> NUL then copyLoop cap v (i + 1) (buf[i := cchar v i])
      else (buf, i))"
  by pat_completeness auto
termination
  by (relation "measure (\<lambda>(cap, v, i, buf). cap - i)") auto

declare copyLoop.simps [simp del]

definition copyPrefix :: "string option \<Rightarrow> O3SerialWriter \<Rightarrow> O3SerialWriter" where
  "copyPrefix v s =
     (let v' = (case v of None \<Rightarrow> [] | Some x \<Rightarrow> x);
          (buf, i) = copyLoop prefixMaxLen v' 0 (prefixBuffer s)
      in s\<lparr>prefixBuffer := buf[i := NUL]\<rparr>)"

definition copyPartSeparator :: "string option \<Rightarrow> O3SerialWriter \<Rightarrow> O3SerialWriter" where
  "copyPartSeparator v s =
     (let v' = (case v of None \<Rightarrow> '' '' | Some x \<Rightarrow> if cchar x 0 = NUL then '' '' else x);
          (buf, i) = copyLoop partSepMaxLen v' 0 (partSeparatorBuffer s)
      in s\<lparr>partSeparatorBuffer := buf[i := NUL]\<rparr>)"

definition resetLineState :: "O3SerialWriter \<Rightarrow> O3SerialWriter" where
  "resetLineState s = s\<lparr>lineOpen := False, activeLevel := defaultLevel s\<rparr>"

definition canWrite :: "O3SerialWriter \<Rightarrow> O3LogLevel \<Rightarrow> bool" where
  "canWrite s level =
     (if \<not> enabled s then False
      else if out s = None then False
      else if minLevel s = NoneLevel then False
      else minLevel s \<le> level)"

definition levelText :: "O3LogLevel \<Rightarrow> string" where
  "levelText level =
     (if level = Debug then ''DEBUG''
      else if level = Info then ''INFO''
      else if level = Warn then ''WARN''
      else if level = Error then ''ERROR''
      else ''LOG'')"

text \<open>\<open>now\<close> is what \<open>millis()\<close> returns when the header is written.\<close>

definition writeHeader :: "O3LogLevel \<Rightarrow> 32 word \<Rightarrow> O3SerialWriter \<Rightarrow> O3SerialWriter option" where
  "writeHeader level now s = do {
     s1 \<leftarrow> (if prefixBuffer s ! 0 \<noteq> NUL then do {
              a \<leftarrow> sink (Print (Chr CHR ''['')) s;
              b \<leftarrow> sink_buffer (prefixBuffer a) a;
              sink (Print (Str ''] '')) b }
            else Some s);
     s2 \<leftarrow> (if showMillis s1 then do {
              a \<leftarrow> sink (Print (ULong now)) s1;
              sink (Print (Chr CHR '' '')) a }
            else Some s1);
     (if showLevel s2 then do {
        a \<leftarrow> sink (Print (Str (levelText level))) s2;
        sink (Print (Str '': '')) a }
      else Some s2) }"

definition ensureLineHeader :: "O3LogLevel \<Rightarrow> 32 word \<Rightarrow> O3SerialWriter \<Rightarrow> O3SerialWriter option" where
  "ensureLineHeader level now s =
     (if \<not> lineOpen s then do {
        a \<leftarrow> writeHeader level now (s\<lparr>activeLevel := level\<rparr>);
        Some (a\<lparr>lineOpen := True\<rparr>) }
      else if level \<noteq> activeLevel s then do {
        a \<leftarrow> sink Println s;
        b \<leftarrow> writeHeader level now ((resetLineState a)\<lparr>activeLevel := level\<rparr>);
        Some (b\<lparr>lineOpen := True\<rparr>) }
      else Some s)"

definition line :: "O3LogLevel \<Rightarrow> string \<Rightarrow> 32 word \<Rightarrow> O3SerialWriter \<Rightarrow> O3SerialWriter option" where
  "line level message now s =
     (if \<not> canWrite s level then Some s
      else do {
        a \<leftarrow> ensureLineHeader level now s;
        b \<leftarrow> sink (PrintlnVal (Str message)) a;
        Some (resetLineState b) })"

definition writePart :: "printable \<Rightarrow> O3SerialWriter \<Rightarrow> O3SerialWriter option" where
  "writePart v s = sink (Print v) s"

text \<open>The parameter pack is the first part and the list of the remaining ones.\<close>

fun writeParts :: "printable \<Rightarrow> printable list \<Rightarrow> O3SerialWriter \<Rightarrow> O3SerialWriter option" where
  "writeParts first [] s = writePart first s"
| "writeParts first (r # rest) s = do {
     a \<leftarrow> writePart first s;
     b \<leftarrow> sink_buffer (partSeparatorBuffer a) a;
     writeParts r rest b }"

definition parts :: "O3LogLevel \<Rightarrow> printable \<Rightarrow> printable list \<Rightarrow> 32 word \<Rightarrow> O3SerialWriter \<Rightarrow> O3SerialWriter option" where
  "parts level first rest now s =
     (if \<not> canWrite s level then Some s
      else do {
        a \<leftarrow> ensureLineHeader level now s;
        b \<leftarrow> writeParts first rest a;
        c \<leftarrow> sink Println b;
        Some (resetLineState c) })"

section \<open>Public members\<close>

definition configure :: "O3SerialWriterOptions \<Rightarrow> O3SerialWriter \<Rightarrow> O3SerialWriter" where
  "configure options s =
     resetLineState
       ((copyPartSeparator (opt_partSeparator options) (copyPrefix (opt_prefix options) s))
          \<lparr>showMillis := opt_showMillis options, showLevel := opt_showLevel options,
           minLevel := opt_minLevel options\<rparr>)"

text \<open>\<open>begin(Stream&, options)\<close>; the stream is given by the calls it has received.\<close>

definition begin_stream :: "sink_call list \<Rightarrow> O3SerialWriterOptions \<Rightarrow> O3SerialWriter \<Rightarrow> O3SerialWriter" where
  "begin_stream stream options s = configure options (s\<lparr>out := Some stream\<rparr>)"

text \<open>
  \<open>begin(HardwareSerial&, baud, options)\<close> opens the port, which writes nothing, and
  continues as the generic \<open>begin\<close>.
\<close>

definition begin_serial :: "sink_call list \<Rightarrow> 32 word \<Rightarrow> O3SerialWriterOptions \<Rightarrow> O3SerialWriter \<Rightarrow> O3SerialWriter" where
  "begin_serial serialPort baud options s = begin_stream serialPort options s"

definition setPrefix :: "string option \<Rightarrow> O3SerialWriter \<Rightarrow> O3SerialWriter" where
  "setPrefix newPrefix s = copyPrefix newPrefix s"

definition setMinLevel :: "O3LogLevel \<Rightarrow> O3SerialWriter \<Rightarrow> O3SerialWriter" where
  "setMinLevel level s = s\<lparr>minLevel := level\<rparr>"

definition setPartSeparator :: "string option \<Rightarrow> O3SerialWriter \<Rightarrow> O3SerialWriter" where
  "setPartSeparator v s = copyPartSeparator v s"

definition setEnabled :: "bool \<Rightarrow> O3SerialWriter \<Rightarrow> O3SerialWriter" where
  "setEnabled isEnabled s =
     (let a = s\<lparr>enabled := isEnabled\<rparr> in if \<not> enabled a then resetLineState a else a)"

definition isEnabled :: "O3SerialWriter \<Rightarrow> bool" where
  "isEnabled s = enabled s"

text \<open>
  The write operations. The template parameter is a \<open>printable\<close>, a message is the
  C string a non-null \<open>const char*\<close> points to, and \<open>now\<close> is the value of
  \<open>millis()\<close> should the call write a header.
\<close>

definition printWithLevel :: "O3LogLevel \<Rightarrow> printable \<Rightarrow> 32 word \<Rightarrow> O3SerialWriter \<Rightarrow> O3SerialWriter option" where
  "printWithLevel level v now s =
     (if \<not> canWrite s level then Some s
      else do {
        a \<leftarrow> ensureLineHeader level now s;
        sink (Print v) a })"

definition printlnWithLevel :: "O3LogLevel \<Rightarrow> printable \<Rightarrow> 32 word \<Rightarrow> O3SerialWriter \<Rightarrow> O3SerialWriter option" where
  "printlnWithLevel level v now s =
     (if \<not> canWrite s level then Some s
      else do {
        a \<leftarrow> ensureLineHeader level now s;
        b \<leftarrow> sink (PrintlnVal v) a;
        Some (resetLineState b) })"

definition print :: "printable \<Rightarrow> 32 word \<Rightarrow> O3SerialWriter \<Rightarrow> O3SerialWriter option" where
  "print v now s = printWithLevel (defaultLevel s) v now s"

definition println :: "printable \<Rightarrow> 32 word \<Rightarrow> O3SerialWriter \<Rightarrow> O3SerialWriter option" where
  "println v now s = printlnWithLevel (defaultLevel s) v now s"

definition println0 :: "32 word \<Rightarrow> O3SerialWriter \<Rightarrow> O3SerialWriter option" where
  "println0 now s =
     (if \<not> canWrite s (defaultLevel s) then Some s
      else do {
        a \<leftarrow> ensureLineHeader (defaultLevel s) now s;
        b \<leftarrow> sink Println a;
        Some (resetLineState b) })"

definition debug :: "string \<Rightarrow> 32 word \<Rightarrow> O3SerialWriter \<Rightarrow> O3SerialWriter option" where
  "debug message now s = line Debug message now s"

definition info :: "string \<Rightarrow> 32 word \<Rightarrow> O3SerialWriter \<Rightarrow> O3SerialWriter option" where
  "info message now s = line Info message now s"

definition warn :: "string \<Rightarrow> 32 word \<Rightarrow> O3SerialWriter \<Rightarrow> O3SerialWriter option" where
  "warn message now s = line Warn message now s"

definition error :: "string \<Rightarrow> 32 word \<Rightarrow> O3SerialWriter \<Rightarrow> O3SerialWriter option" where
  "error message now s = line Error message now s"

definition debug_parts :: "printable \<Rightarrow> printable list \<Rightarrow> 32 word \<Rightarrow> O3SerialWriter \<Rightarrow> O3SerialWriter option" where
  "debug_parts first rest now s = parts Debug first rest now s"

definition info_parts :: "printable \<Rightarrow> printable list \<Rightarrow> 32 word \<Rightarrow> O3SerialWriter \<Rightarrow> O3SerialWriter option" where
  "info_parts first rest now s = parts Info first rest now s"

definition warn_parts :: "printable \<Rightarrow> printable list \<Rightarrow> 32 word \<Rightarrow> O3SerialWriter \<Rightarrow> O3SerialWriter option" where
  "warn_parts first rest now s = parts Warn first rest now s"

definition error_parts :: "printable \<Rightarrow> printable list \<Rightarrow> 32 word \<Rightarrow> O3SerialWriter \<Rightarrow> O3SerialWriter option" where
  "error_parts first rest now s = parts Error first rest now s"

section \<open>Derived notions\<close>

text \<open>
  The two character arrays have their declared sizes and hold a terminator, so that
  printing them stays inside the array.
\<close>

definition buffers_ok :: "O3SerialWriter \<Rightarrow> bool" where
  "buffers_ok s \<longleftrightarrow>
     length (prefixBuffer s) = prefixMaxLen \<and> NUL \<in> set (prefixBuffer s) \<and>
     length (partSeparatorBuffer s) = partSepMaxLen \<and> NUL \<in> set (partSeparatorBuffer s)"

text \<open>
  The calls \<open>writeHeader\<close> makes, read off its three conditionals, and the calls
  \<open>ensureLineHeader\<close> makes in its three cases.
\<close>

definition headerCalls :: "O3SerialWriter \<Rightarrow> O3LogLevel \<Rightarrow> 32 word \<Rightarrow> sink_call list" where
  "headerCalls s level now =
     (if prefixBuffer s ! 0 \<noteq> NUL
      then [Print (Chr CHR ''[''), Print (Str (cstr (prefixBuffer s))), Print (Str ''] '')]
      else []) @
     (if showMillis s then [Print (ULong now), Print (Chr CHR '' '')] else []) @
     (if showLevel s then [Print (Str (levelText level)), Print (Str '': '')] else [])"

definition ensureCalls :: "O3SerialWriter \<Rightarrow> O3LogLevel \<Rightarrow> 32 word \<Rightarrow> sink_call list" where
  "ensureCalls s level now =
     (if \<not> lineOpen s then headerCalls s level now
      else if level \<noteq> activeLevel s then Println # headerCalls s level now
      else [])"

text \<open>
  A public call, with its arguments. The two overloads of \<open>debug\<close>, \<open>info\<close>,
  \<open>warn\<close> and \<open>error\<close> are separate calls: one C string, or a first part and
  the remaining parts. \<open>exec\<close> makes one call, \<open>run\<close> a sequence of them; each
  call is paired with the value \<open>millis()\<close> returns while it runs.
\<close>

datatype call =
    Begin "sink_call list" O3SerialWriterOptions
  | Configure O3SerialWriterOptions
  | SetPrefix "string option"
  | SetMinLevel O3LogLevel
  | SetPartSeparator "string option"
  | SetEnabled bool
  | CallPrint printable
  | CallPrintln printable
  | CallPrintln0
  | PrintWithLevel O3LogLevel printable
  | PrintlnWithLevel O3LogLevel printable
  | CallDebug string
  | CallInfo string
  | CallWarn string
  | CallError string
  | CallDebugParts printable "printable list"
  | CallInfoParts printable "printable list"
  | CallWarnParts printable "printable list"
  | CallErrorParts printable "printable list"

fun exec :: "call \<Rightarrow> 32 word \<Rightarrow> O3SerialWriter \<Rightarrow> O3SerialWriter option" where
  "exec (Begin stream options) now s = Some (begin_stream stream options s)"
| "exec (Configure options) now s = Some (configure options s)"
| "exec (SetPrefix v) now s = Some (setPrefix v s)"
| "exec (SetMinLevel level) now s = Some (setMinLevel level s)"
| "exec (SetPartSeparator v) now s = Some (setPartSeparator v s)"
| "exec (SetEnabled b) now s = Some (setEnabled b s)"
| "exec (CallPrint v) now s = print v now s"
| "exec (CallPrintln v) now s = println v now s"
| "exec CallPrintln0 now s = println0 now s"
| "exec (PrintWithLevel level v) now s = printWithLevel level v now s"
| "exec (PrintlnWithLevel level v) now s = printlnWithLevel level v now s"
| "exec (CallDebug m) now s = debug m now s"
| "exec (CallInfo m) now s = info m now s"
| "exec (CallWarn m) now s = warn m now s"
| "exec (CallError m) now s = error m now s"
| "exec (CallDebugParts first rest) now s = debug_parts first rest now s"
| "exec (CallInfoParts first rest) now s = info_parts first rest now s"
| "exec (CallWarnParts first rest) now s = warn_parts first rest now s"
| "exec (CallErrorParts first rest) now s = error_parts first rest now s"

fun run :: "(call \<times> 32 word) list \<Rightarrow> O3SerialWriter \<Rightarrow> O3SerialWriter option" where
  "run [] s = Some s"
| "run ((c, now) # cs) s = (case exec c now s of None \<Rightarrow> None | Some a \<Rightarrow> run cs a)"

text \<open>The states of the object: the new object and what public calls make of it.\<close>

inductive reachable :: "O3SerialWriter \<Rightarrow> bool" where
  init: "reachable O3SerialWriter_init"
| step: "reachable s \<Longrightarrow> exec c now s = Some s' \<Longrightarrow> reachable s'"

text \<open>
  The calls that end a line (they send a line break and their level passes \<open>canWrite\<close>), and the calls
  after which the source resets the line state.
\<close>

fun terminates :: "call \<Rightarrow> O3SerialWriter \<Rightarrow> bool" where
  "terminates (CallPrintln v) s = canWrite s (defaultLevel s)"
| "terminates CallPrintln0 s = canWrite s (defaultLevel s)"
| "terminates (PrintlnWithLevel level v) s = canWrite s level"
| "terminates (CallDebug m) s = canWrite s Debug"
| "terminates (CallInfo m) s = canWrite s Info"
| "terminates (CallWarn m) s = canWrite s Warn"
| "terminates (CallError m) s = canWrite s Error"
| "terminates (CallDebugParts first rest) s = canWrite s Debug"
| "terminates (CallInfoParts first rest) s = canWrite s Info"
| "terminates (CallWarnParts first rest) s = canWrite s Warn"
| "terminates (CallErrorParts first rest) s = canWrite s Error"
| "terminates c s = False"

fun resets :: "call \<Rightarrow> O3SerialWriter \<Rightarrow> bool" where
  "resets (Begin stream options) s = True"
| "resets (Configure options) s = True"
| "resets (SetEnabled b) s = (\<not> b)"
| "resets c s = terminates c s"

text \<open>The calls \<open>writeParts\<close> makes: the first part, then separator and part in turn.\<close>

definition partsCalls :: "string \<Rightarrow> printable \<Rightarrow> printable list \<Rightarrow> sink_call list" where
  "partsCalls sep first rest = Print first # concat (map (\<lambda>r. [Print (Str sep), Print r]) rest)"

text \<open>
  What every reachable state satisfies: the arrays are well formed, \<open>defaultLevel\<close>
  is never assigned, and a closed line has the default level as \<open>activeLevel\<close>.
\<close>

definition writer_inv :: "O3SerialWriter \<Rightarrow> bool" where
  "writer_inv s \<longleftrightarrow> buffers_ok s \<and> defaultLevel s = Info \<and> (\<not> lineOpen s \<longrightarrow> activeLevel s = Info)"

text \<open>
  The output line format in the words of the specification:
  \<open>[<prefix>] \<close> (if prefix set) \<open><millis> \<close> (if enabled) \<open><LEVEL>: \<close>
  (if enabled) \<open><payload><line break>\<close>.
\<close>

definition header_format :: "string \<Rightarrow> bool \<Rightarrow> bool \<Rightarrow> 32 word \<Rightarrow> O3LogLevel \<Rightarrow> string" where
  "header_format prefix showMs showLv now level =
     (if prefix \<noteq> [] then ''['' @ prefix @ ''] '' else []) @
     (if showMs then toText (ULong now) @ '' '' else []) @
     (if showLv then levelText level @ '': '' else [])"

definition line_format :: "string \<Rightarrow> bool \<Rightarrow> bool \<Rightarrow> 32 word \<Rightarrow> O3LogLevel \<Rightarrow> string \<Rightarrow> string" where
  "line_format prefix showMs showLv now level payload =
     header_format prefix showMs showLv now level @ payload @ lineBreak"

text \<open>The bytes the attached stream has received after an operation.\<close>

definition sink_text :: "O3SerialWriter option \<Rightarrow> string option" where
  "sink_text r = (case r of None \<Rightarrow> None | Some a \<Rightarrow> map_option sink_bytes (out a))"


text \<open>
  The history of an open line: one of the calls \<open>cs\<close> was a \<open>printWithLevel\<close> (or
  \<open>print\<close>) at \<open>activeLevel\<close> made in a state \<open>s1\<close> with no line open at that
  level, and the sink holds what it held in \<open>s1\<close>, the line break that ended a line of
  another level, the header as configured in \<open>s1\<close>, the printed value, and then only
  values of the print calls that followed, none of them a line-break call.
\<close>

definition header_written :: "(call \<times> 32 word) list \<Rightarrow> O3SerialWriter \<Rightarrow> bool" where
  "header_written cs s \<longleftrightarrow>
     (\<exists>cs1 c now cs2 s1 tr1 v body.
        cs = cs1 @ (c, now) # cs2 \<and> run cs1 O3SerialWriter_init = Some s1 \<and>
        out s1 = Some tr1 \<and>
        (c = PrintWithLevel (activeLevel s) v \<or> c = CallPrint v \<and> activeLevel s = Info) \<and>
        (lineOpen s1 \<longrightarrow> activeLevel s1 \<noteq> activeLevel s) \<and>
        out s = Some (tr1 @ (if lineOpen s1 then [Println] else []) @
                      headerCalls s1 (activeLevel s) now @ Print v # body) \<and>
        (\<forall>e \<in> set body. \<not> is_break e \<and>
           (\<exists>c' t' v'. (c', t') \<in> set cs2 \<and>
              (c' = PrintWithLevel (activeLevel s) v' \<or> c' = CallPrint v') \<and> e = Print v')))"

section \<open>The copy loop\<close>

lemma cchar_cstr: "i < length (cstr v) \<Longrightarrow> cchar v i = cstr v ! i \<and> cchar v i \<noteq> NUL"
proof -
  assume a: "i < length (cstr v)"
  have l: "length (cstr v) \<le> length v" by (simp add: cstr_def length_takeWhile_le)
  have "cstr v ! i = v ! i" using a by (simp add: cstr_def takeWhile_nth)
  moreover have "cstr v ! i \<in> set (cstr v)" using a by simp
  then have "cstr v ! i \<noteq> NUL" unfolding cstr_def by (auto dest: set_takeWhileD)
  ultimately show ?thesis using a l by (simp add: cchar_def)
qed

lemma cchar_end: "cchar v (length (cstr v)) = NUL"
proof (cases "length (cstr v) < length v")
  case True
  then show ?thesis
    using nth_length_takeWhile [of "\<lambda>c. c \<noteq> NUL" v] by (simp add: cchar_def cstr_def)
next
  case False
  then show ?thesis by (simp add: cchar_def)
qed

lemma copyLoop_result:
  "i \<le> length (cstr v) \<Longrightarrow> i < cap \<Longrightarrow> length buf = cap \<Longrightarrow> take i buf = take i (cstr v) \<Longrightarrow>
   copyLoop cap v i buf = (buf', n) \<Longrightarrow>
   n = min (cap - 1) (length (cstr v)) \<and> length buf' = cap \<and> take n buf' = take n (cstr v)"
proof (induction cap v i buf rule: copyLoop.induct)
  case (1 cap v i buf)
  show ?case
  proof (cases "i + 1 < cap \<and> cchar v i \<noteq> NUL")
    case True
    then have lt: "i < length (cstr v)"
      using "1.prems"(1) cchar_end [of v] by (cases "i = length (cstr v)") auto
    have ch: "cchar v i = cstr v ! i" using cchar_cstr [OF lt] by simp
    have tk: "take (i + 1) (buf[i := cchar v i]) = take (i + 1) (cstr v)"
      using "1.prems" lt ch by (simp add: take_Suc_conv_app_nth)
    have "copyLoop cap v i buf = copyLoop cap v (i + 1) (buf[i := cchar v i])"
      using True by (subst copyLoop.simps) simp
    then have rec: "copyLoop cap v (i + 1) (buf[i := cchar v i]) = (buf', n)"
      using "1.prems"(5) by simp
    show ?thesis
    proof (rule "1.IH" [OF True _ _ _ tk rec])
      show "i + 1 \<le> length (cstr v)" using lt by simp
      show "i + 1 < cap" using True by simp
      show "length (buf[i := cchar v i]) = cap" using "1.prems"(3) by simp
    qed
  next
    case False
    then have "copyLoop cap v i buf = (buf, i)"
      by (subst copyLoop.simps) auto
    then have res: "buf' = buf" "n = i"
      using "1.prems"(5) by simp_all
    from False have "i + 1 = cap \<or> i = length (cstr v)"
      using "1.prems"(1,2) cchar_cstr [of i v] by (cases "i < length (cstr v)") auto
    then show ?thesis using res "1.prems" by auto
  qed
qed

lemma cstr_terminated:
  assumes "n < length buf" "NUL \<notin> set (take n buf)"
  shows "cstr (buf[n := NUL]) = take n buf"
proof -
  have "buf[n := NUL] = take n buf @ NUL # drop (Suc n) buf"
    using assms(1) by (simp add: upd_conv_take_nth_drop)
  then have "cstr (buf[n := NUL]) = takeWhile (\<lambda>c. c \<noteq> NUL) (take n buf)"
    by (simp add: cstr_def takeWhile_tail)
  moreover have "\<forall>c\<in>set (take n buf). c \<noteq> NUL" using assms(2) by auto
  ultimately show ?thesis by simp
qed

lemma cstr_no_NUL: "NUL \<notin> set (take n (cstr v))"
  by (auto simp: cstr_def dest!: in_set_takeD set_takeWhileD)

lemma copy_buffer:
  assumes "0 < cap" "length buf = cap" "copyLoop cap v 0 buf = (buf', n)"
  shows "length (buf'[n := NUL]) = cap \<and> NUL \<in> set (buf'[n := NUL]) \<and>
         cstr (buf'[n := NUL]) = take (cap - 1) (cstr v)"
proof -
  from copyLoop_result [of 0 v cap buf buf' n] assms
  have n: "n = min (cap - 1) (length (cstr v))" and len: "length buf' = cap"
    and tk: "take n buf' = take n (cstr v)" by auto
  have lt: "n < length buf'" using n len assms(1) by simp
  have "cstr (buf'[n := NUL]) = take n buf'"
    using lt tk cstr_no_NUL [of n v] by (simp add: cstr_terminated)
  moreover have "take n (cstr v) = take (cap - 1) (cstr v)" using n by (simp add: min_def)
  moreover have "NUL \<in> set (buf'[n := NUL])" using lt by (simp add: set_update_memI)
  ultimately show ?thesis using len tk by simp
qed

section \<open>The sink calls of the private members\<close>

lemma sink_Some: "out s = Some tr \<Longrightarrow> sink c s = Some (s\<lparr>out := Some (tr @ [c])\<rparr>)"
  by (simp add: sink_def)

lemma sink_buffer_Some:
  "out s = Some tr \<Longrightarrow> NUL \<in> set buf \<Longrightarrow>
   sink_buffer buf s = Some (s\<lparr>out := Some (tr @ [Print (Str (cstr buf))])\<rparr>)"
  by (simp add: sink_buffer_def sink_Some)

lemma headerCalls_frame [simp]:
  "headerCalls (s\<lparr>out := x\<rparr>) level now = headerCalls s level now"
  "headerCalls (s\<lparr>lineOpen := y\<rparr>) level now = headerCalls s level now"
  "headerCalls (s\<lparr>activeLevel := z\<rparr>) level now = headerCalls s level now"
  "headerCalls (s\<lparr>enabled := e\<rparr>) level now = headerCalls s level now"
  "headerCalls (s\<lparr>minLevel := m\<rparr>) level now = headerCalls s level now"
  "headerCalls (s\<lparr>partSeparatorBuffer := b\<rparr>) level now = headerCalls s level now"
  by (simp_all add: headerCalls_def)

lemma writeHeader_Some:
  assumes "out s = Some tr" "NUL \<in> set (prefixBuffer s)"
  shows "writeHeader level now s = Some (s\<lparr>out := Some (tr @ headerCalls s level now)\<rparr>)"
  using assms by (simp add: writeHeader_def headerCalls_def sink_Some sink_buffer_Some)

lemma ensureLineHeader_closed:
  assumes "out s = Some tr" "NUL \<in> set (prefixBuffer s)" "\<not> lineOpen s"
  shows "ensureLineHeader level now s =
         Some (s\<lparr>out := Some (tr @ headerCalls s level now), lineOpen := True, activeLevel := level\<rparr>)"
  using assms by (simp add: ensureLineHeader_def writeHeader_Some)

lemma ensureLineHeader_same:
  assumes "lineOpen s" "level = activeLevel s"
  shows "ensureLineHeader level now s = Some s"
  using assms by (simp add: ensureLineHeader_def)

lemma ensureLineHeader_change:
  assumes "out s = Some tr" "NUL \<in> set (prefixBuffer s)" "lineOpen s" "level \<noteq> activeLevel s"
  shows "ensureLineHeader level now s =
         Some (s\<lparr>out := Some (tr @ Println # headerCalls s level now), lineOpen := True, activeLevel := level\<rparr>)"
  using assms by (simp add: ensureLineHeader_def writeHeader_Some sink_Some resetLineState_def)

lemma ensureLineHeader_Some:
  assumes "out s = Some tr" "NUL \<in> set (prefixBuffer s)"
  shows "ensureLineHeader level now s =
         Some (s\<lparr>out := Some (tr @ ensureCalls s level now), lineOpen := True, activeLevel := level\<rparr>)"
proof (cases "lineOpen s")
  case False
  then show ?thesis using assms by (simp add: ensureLineHeader_closed ensureCalls_def)
next
  case True
  show ?thesis
  proof (cases "level = activeLevel s")
    case same: True
    have "s\<lparr>out := Some tr, lineOpen := True, activeLevel := activeLevel s\<rparr> = s"
      using assms(1) True by simp
    then show ?thesis using True same by (simp add: ensureLineHeader_same ensureCalls_def)
  next
    case False
    then show ?thesis using True assms by (simp add: ensureLineHeader_change ensureCalls_def)
  qed
qed

section \<open>Gating and header emission\<close>

lemma init_fields [simp]:
  "out O3SerialWriter_init = None" "enabled O3SerialWriter_init"
  "showMillis O3SerialWriter_init" "showLevel O3SerialWriter_init"
  "minLevel O3SerialWriter_init = Debug" "defaultLevel O3SerialWriter_init = Info"
  "\<not> lineOpen O3SerialWriter_init" "activeLevel O3SerialWriter_init = Info"
  "prefixBuffer O3SerialWriter_init = replicate 32 NUL"
  "partSeparatorBuffer O3SerialWriter_init = CHR '' '' # replicate 7 NUL"
  by (simp_all add: O3SerialWriter_init_def prefixMaxLen_def partSepMaxLen_def)

text \<open>
  Claim C3. \<open>canWrite(level)\<close> is false exactly when logging is disabled, or no sink
  is attached, or the threshold is \<open>None\<close>, or the level is strictly below the
  threshold as an unsigned byte; and when it is false, \<open>line\<close>, \<open>parts\<close>,
  \<open>printWithLevel\<close> and \<open>printlnWithLevel\<close> return the object as it was: no
  call reaches the sink, and line state and configuration are unchanged.
\<close>

theorem canWrite_gate:
  "(\<not> canWrite s level \<longleftrightarrow>
      (\<not> enabled s \<or> out s = None \<or> minLevel s = NoneLevel \<or> unat level < unat (minLevel s)))
   \<and> (\<not> canWrite s level \<longrightarrow>
        line level message now s = Some s \<and>
        parts level first rest now s = Some s \<and>
        printWithLevel level v now s = Some s \<and>
        printlnWithLevel level v now s = Some s)"
  by (auto simp: canWrite_def line_def parts_def printWithLevel_def printlnWithLevel_def
      word_le_nat_alt)

theorem canWrite_gate_witness:
  "\<not> canWrite (O3SerialWriter_init\<lparr>out := Some [], minLevel := Warn\<rparr>) Info \<and>
   line Info ''x'' 5 (O3SerialWriter_init\<lparr>out := Some [], minLevel := Warn\<rparr>) =
     Some (O3SerialWriter_init\<lparr>out := Some [], minLevel := Warn\<rparr>) \<and>
   parts Info (Str ''a'') [Str ''b''] 5 (O3SerialWriter_init\<lparr>out := Some [], minLevel := Warn\<rparr>) =
     Some (O3SerialWriter_init\<lparr>out := Some [], minLevel := Warn\<rparr>) \<and>
   printWithLevel Info (Str ''a'') 5 (O3SerialWriter_init\<lparr>out := Some [], minLevel := Warn\<rparr>) =
     Some (O3SerialWriter_init\<lparr>out := Some [], minLevel := Warn\<rparr>) \<and>
   printlnWithLevel Info (Str ''a'') 5 (O3SerialWriter_init\<lparr>out := Some [], minLevel := Warn\<rparr>) =
     Some (O3SerialWriter_init\<lparr>out := Some [], minLevel := Warn\<rparr>)"
  using canWrite_gate [of "O3SerialWriter_init\<lparr>out := Some [], minLevel := Warn\<rparr>" Info
      "''x''" 5 "Str ''a''" "[Str ''b'']" "Str ''a''"]
  by simp

text \<open>
  Claim C2, amended. On an attached writer \<open>ensureLineHeader(level)\<close> has three cases.
  With no line open it writes the header for \<open>level\<close>, opens the line and sets
  \<open>activeLevel\<close>. With a line open at the same level it does nothing. With a line open
  at another level it first sends a line break and then the header of the new level, which
  is what the first case does on the reset state after the line break. So a header is
  never written onto a line that the line state records as open at another level. A line
  whose state was reset without a line break is not recorded as open, and the first case
  applies to it.
\<close>

theorem ensureLineHeader_cases:
  assumes "out s = Some tr" and "NUL \<in> set (prefixBuffer s)"
  shows "(\<not> lineOpen s \<longrightarrow>
            ensureLineHeader level now s =
              Some (s\<lparr>out := Some (tr @ headerCalls s level now),
                      lineOpen := True, activeLevel := level\<rparr>))
       \<and> (lineOpen s \<and> level = activeLevel s \<longrightarrow> ensureLineHeader level now s = Some s)
       \<and> (lineOpen s \<and> level \<noteq> activeLevel s \<longrightarrow>
            ensureLineHeader level now s =
              Some (s\<lparr>out := Some (tr @ Println # headerCalls s level now),
                      lineOpen := True, activeLevel := level\<rparr>) \<and>
            ensureLineHeader level now s =
              ensureLineHeader level now (resetLineState (s\<lparr>out := Some (tr @ [Println])\<rparr>)))"
proof (intro conjI impI)
  assume "\<not> lineOpen s"
  then show "ensureLineHeader level now s =
      Some (s\<lparr>out := Some (tr @ headerCalls s level now), lineOpen := True, activeLevel := level\<rparr>)"
    using assms by (rule ensureLineHeader_closed [rotated 2])
next
  assume "lineOpen s \<and> level = activeLevel s"
  then show "ensureLineHeader level now s = Some s"
    by (simp add: ensureLineHeader_same)
next
  assume a: "lineOpen s \<and> level \<noteq> activeLevel s"
  then show c: "ensureLineHeader level now s =
      Some (s\<lparr>out := Some (tr @ Println # headerCalls s level now),
              lineOpen := True, activeLevel := level\<rparr>)"
    using assms by (simp add: ensureLineHeader_change)
  have "ensureLineHeader level now (resetLineState (s\<lparr>out := Some (tr @ [Println])\<rparr>)) =
      Some (s\<lparr>out := Some (tr @ Println # headerCalls s level now),
              lineOpen := True, activeLevel := level\<rparr>)"
    using assms
    by (subst ensureLineHeader_closed [where tr = "tr @ [Println]"])
       (simp_all add: resetLineState_def headerCalls_def)
  then show "ensureLineHeader level now s =
      ensureLineHeader level now (resetLineState (s\<lparr>out := Some (tr @ [Println])\<rparr>))"
    using c by simp
qed

theorem ensureLineHeader_cases_witness:
  "out (O3SerialWriter_init\<lparr>out := Some [], lineOpen := True\<rparr>) = Some [] \<and>
   NUL \<in> set (prefixBuffer (O3SerialWriter_init\<lparr>out := Some [], lineOpen := True\<rparr>)) \<and>
   ensureLineHeader Info 7 (O3SerialWriter_init\<lparr>out := Some [], lineOpen := True\<rparr>) =
     Some (O3SerialWriter_init\<lparr>out := Some [], lineOpen := True\<rparr>) \<and>
   ensureLineHeader Warn 7 (O3SerialWriter_init\<lparr>out := Some [], lineOpen := True\<rparr>) =
     Some (O3SerialWriter_init\<lparr>out := Some [Println, Print (ULong 7), Print (Chr CHR '' ''),
             Print (Str ''WARN''), Print (Str '': '')], lineOpen := True, activeLevel := Warn\<rparr>) \<and>
   ensureLineHeader Warn 7 (O3SerialWriter_init\<lparr>out := Some []\<rparr>) =
     Some (O3SerialWriter_init\<lparr>out := Some [Print (ULong 7), Print (Chr CHR '' ''),
             Print (Str ''WARN''), Print (Str '': '')], lineOpen := True, activeLevel := Warn\<rparr>)"
  using ensureLineHeader_cases [of "O3SerialWriter_init\<lparr>out := Some [], lineOpen := True\<rparr>" "[]" Info 7]
    ensureLineHeader_cases [of "O3SerialWriter_init\<lparr>out := Some [], lineOpen := True\<rparr>" "[]" Warn 7]
    ensureLineHeader_cases [of "O3SerialWriter_init\<lparr>out := Some []\<rparr>" "[]" Warn 7]
  by (simp add: headerCalls_def levelText_def)

text \<open>
  Claim C10. \<open>None\<close> as the level of a write is not suppressed: on an enabled,
  attached writer whose threshold is not \<open>None\<close>, \<open>canWrite(None)\<close> is true,
  since 255 is at least every threshold, and the header written for it carries the
  fallback label \<open>LOG\<close>.
\<close>

theorem canWrite_NoneLevel:
  assumes "enabled s" and "out s = Some tr" and "minLevel s \<noteq> NoneLevel"
  shows "canWrite s NoneLevel \<and> levelText NoneLevel = ''LOG'' \<and>
         (NUL \<in> set (prefixBuffer s) \<and> \<not> lineOpen s \<and> showLevel s \<longrightarrow>
           printWithLevel NoneLevel v now s =
              Some (s\<lparr>out := Some (tr @ headerCalls (s\<lparr>showLevel := False\<rparr>) NoneLevel now @
                                    [Print (Str ''LOG''), Print (Str '': ''), Print v]),
                      lineOpen := True, activeLevel := NoneLevel\<rparr>))"
proof -
  have "minLevel s \<le> NoneLevel"
    using unsigned_less [of "minLevel s", where ?'a = nat]
    by (simp add: word_le_nat_alt)
  then have cw: "canWrite s NoneLevel" using assms by (simp add: canWrite_def)
  have lt: "levelText NoneLevel = ''LOG''" by (simp add: levelText_def)
  show ?thesis
  proof (intro conjI impI)
    show "canWrite s NoneLevel" by (rule cw)
    show "levelText NoneLevel = ''LOG''" by (rule lt)
    assume a: "NUL \<in> set (prefixBuffer s) \<and> \<not> lineOpen s \<and> showLevel s"
    then have "headerCalls s NoneLevel now =
        headerCalls (s\<lparr>showLevel := False\<rparr>) NoneLevel now @
        [Print (Str ''LOG''), Print (Str '': '')]"
      by (simp add: headerCalls_def lt)
    then show "printWithLevel NoneLevel v now s =
              Some (s\<lparr>out := Some (tr @ headerCalls (s\<lparr>showLevel := False\<rparr>) NoneLevel now @
                                    [Print (Str ''LOG''), Print (Str '': ''), Print v]),
                      lineOpen := True, activeLevel := NoneLevel\<rparr>)"
      using a cw assms(2)
      by (simp add: printWithLevel_def ensureLineHeader_closed sink_Some)
  qed
qed

theorem canWrite_NoneLevel_witness:
  "enabled (O3SerialWriter_init\<lparr>out := Some [], minLevel := Error\<rparr>) \<and>
   out (O3SerialWriter_init\<lparr>out := Some [], minLevel := Error\<rparr>) = Some [] \<and>
   minLevel (O3SerialWriter_init\<lparr>out := Some [], minLevel := Error\<rparr>) \<noteq> NoneLevel \<and>
   canWrite (O3SerialWriter_init\<lparr>out := Some [], minLevel := Error\<rparr>) NoneLevel \<and>
   printWithLevel NoneLevel (Str ''x'') 9 (O3SerialWriter_init\<lparr>out := Some [], minLevel := Error\<rparr>) =
     Some (O3SerialWriter_init\<lparr>out := Some [Print (ULong 9), Print (Chr CHR '' ''),
             Print (Str ''LOG''), Print (Str '': ''), Print (Str ''x'')], minLevel := Error,
             lineOpen := True, activeLevel := NoneLevel\<rparr>)"
  using canWrite_NoneLevel [of "O3SerialWriter_init\<lparr>out := Some [], minLevel := Error\<rparr>" "[]"
      "Str ''x''" 9]
  by (simp add: headerCalls_def)

section \<open>Configuration strings\<close>

lemma cstr_Nil [simp]: "cstr [] = []"
  by (simp add: cstr_def)

lemma cstr_space [simp]: "cstr '' '' = '' ''"
  by (simp add: cstr_def)

lemma cchar_0_NUL: "cchar x 0 = NUL \<longleftrightarrow> cstr x = []"
  using cchar_end [of x] cchar_cstr [of 0 x] by (cases "cstr x = []") auto

lemma buffer_0_NUL: "buf \<noteq> [] \<Longrightarrow> buf ! 0 \<noteq> NUL \<longleftrightarrow> cstr buf \<noteq> []"
  by (simp add: cstr_def takeWhile_eq_Nil_iff hd_conv_nth)

lemma copyPrefix_frame [simp]:
  "out (copyPrefix v s) = out s" "enabled (copyPrefix v s) = enabled s"
  "showMillis (copyPrefix v s) = showMillis s" "showLevel (copyPrefix v s) = showLevel s"
  "minLevel (copyPrefix v s) = minLevel s" "defaultLevel (copyPrefix v s) = defaultLevel s"
  "lineOpen (copyPrefix v s) = lineOpen s" "activeLevel (copyPrefix v s) = activeLevel s"
  "partSeparatorBuffer (copyPrefix v s) = partSeparatorBuffer s"
  by (simp_all add: copyPrefix_def Let_def case_prod_beta)

lemma copyPartSeparator_frame [simp]:
  "out (copyPartSeparator v s) = out s" "enabled (copyPartSeparator v s) = enabled s"
  "showMillis (copyPartSeparator v s) = showMillis s"
  "showLevel (copyPartSeparator v s) = showLevel s"
  "minLevel (copyPartSeparator v s) = minLevel s"
  "defaultLevel (copyPartSeparator v s) = defaultLevel s"
  "lineOpen (copyPartSeparator v s) = lineOpen s"
  "activeLevel (copyPartSeparator v s) = activeLevel s"
  "prefixBuffer (copyPartSeparator v s) = prefixBuffer s"
  by (simp_all add: copyPartSeparator_def Let_def case_prod_beta)

lemma copyPrefix_stored:
  assumes "length (prefixBuffer s) = prefixMaxLen"
  shows "copyPrefix v s = s\<lparr>prefixBuffer := prefixBuffer (copyPrefix v s)\<rparr> \<and>
         length (prefixBuffer (copyPrefix v s)) = prefixMaxLen \<and>
         NUL \<in> set (prefixBuffer (copyPrefix v s)) \<and>
         cstr (prefixBuffer (copyPrefix v s)) =
           take (prefixMaxLen - 1) (case v of None \<Rightarrow> [] | Some x \<Rightarrow> cstr x)"
proof -
  define v' where "v' = (case v of None \<Rightarrow> [] | Some x \<Rightarrow> x)"
  obtain buf n where loop: "copyLoop prefixMaxLen v' 0 (prefixBuffer s) = (buf, n)"
    by (cases "copyLoop prefixMaxLen v' 0 (prefixBuffer s)")
  have eq: "copyPrefix v s = s\<lparr>prefixBuffer := buf[n := NUL]\<rparr>"
    using loop by (simp add: copyPrefix_def v'_def)
  have "cstr v' = (case v of None \<Rightarrow> [] | Some x \<Rightarrow> cstr x)"
    by (simp add: v'_def split: option.split)
  then show ?thesis
    using copy_buffer [OF _ assms loop] eq by (simp add: prefixMaxLen_def)
qed

lemma copyPartSeparator_stored:
  assumes "length (partSeparatorBuffer s) = partSepMaxLen"
  shows "copyPartSeparator v s = s\<lparr>partSeparatorBuffer := partSeparatorBuffer (copyPartSeparator v s)\<rparr> \<and>
         length (partSeparatorBuffer (copyPartSeparator v s)) = partSepMaxLen \<and>
         NUL \<in> set (partSeparatorBuffer (copyPartSeparator v s)) \<and>
         cstr (partSeparatorBuffer (copyPartSeparator v s)) =
           take (partSepMaxLen - 1)
             (case v of None \<Rightarrow> '' '' | Some x \<Rightarrow> if cstr x = [] then '' '' else cstr x)"
proof -
  define v' where "v' = (case v of None \<Rightarrow> '' '' | Some x \<Rightarrow> if cchar x 0 = NUL then '' '' else x)"
  obtain buf n where loop: "copyLoop partSepMaxLen v' 0 (partSeparatorBuffer s) = (buf, n)"
    by (cases "copyLoop partSepMaxLen v' 0 (partSeparatorBuffer s)")
  have eq: "copyPartSeparator v s = s\<lparr>partSeparatorBuffer := buf[n := NUL]\<rparr>"
    using loop by (simp add: copyPartSeparator_def v'_def)
  have "cstr v' = (case v of None \<Rightarrow> '' '' | Some x \<Rightarrow> if cstr x = [] then '' '' else cstr x)"
    by (simp add: v'_def cchar_0_NUL split: option.split)
  then show ?thesis
    using copy_buffer [OF _ assms loop] eq by (simp add: partSepMaxLen_def)
qed

text \<open>
  Claim C8. Copying a configuration string into its array leaves the array at its size
  with a terminator inside it. The stored prefix is the first 31 characters of the
  argument (the empty string for a null pointer), the stored separator the first 7
  characters of the argument, or a single space when the argument is null or empty.
  A non-empty prefix, truncated or not, is written between \<open>[\<close> and \<open>]\<close> and a
  space by \<open>writeHeader\<close>.
\<close>

theorem copy_truncates:
  assumes "length (prefixBuffer s) = prefixMaxLen"
    and "length (partSeparatorBuffer s) = partSepMaxLen"
  shows "length (prefixBuffer (copyPrefix v s)) = 32 \<and>
         NUL \<in> set (prefixBuffer (copyPrefix v s)) \<and>
         cstr (prefixBuffer (copyPrefix v s)) = take 31 (case v of None \<Rightarrow> [] | Some x \<Rightarrow> cstr x) \<and>
         length (partSeparatorBuffer (copyPartSeparator v s)) = 8 \<and>
         NUL \<in> set (partSeparatorBuffer (copyPartSeparator v s)) \<and>
         cstr (partSeparatorBuffer (copyPartSeparator v s)) =
           take 7 (case v of None \<Rightarrow> '' '' | Some x \<Rightarrow> if cstr x = [] then '' '' else cstr x) \<and>
         (\<forall>x tr. v = Some x \<and> cstr x \<noteq> [] \<and> out s = Some tr \<longrightarrow>
            writeHeader level now ((copyPrefix v s)\<lparr>showMillis := False, showLevel := False\<rparr>) =
              Some ((copyPrefix v s)\<lparr>showMillis := False, showLevel := False,
                 out := Some (tr @ [Print (Chr CHR ''[''), Print (Str (take 31 (cstr x))),
                                   Print (Str ''] '')])\<rparr>))"
proof -
  note p = copyPrefix_stored [OF assms(1), of v]
  note q = copyPartSeparator_stored [OF assms(2), of v]
  have hdr: "writeHeader level now ((copyPrefix v s)\<lparr>showMillis := False, showLevel := False\<rparr>) =
              Some ((copyPrefix v s)\<lparr>showMillis := False, showLevel := False,
                 out := Some (tr @ [Print (Chr CHR ''[''), Print (Str (take 31 (cstr x))),
                                   Print (Str ''] '')])\<rparr>)"
    if v: "v = Some x" and ne: "cstr x \<noteq> []" and o: "out s = Some tr" for x tr
  proof -
    let ?s = "(copyPrefix v s)\<lparr>showMillis := False, showLevel := False\<rparr>"
    have o': "out ?s = Some tr" using o by simp
    have c: "cstr (prefixBuffer ?s) = take 31 (cstr x)" using p v by (simp add: prefixMaxLen_def)
    then have "cstr (prefixBuffer ?s) \<noteq> []" using ne by simp
    moreover have "prefixBuffer ?s \<noteq> []" using p by (auto simp: prefixMaxLen_def)
    ultimately have nz: "prefixBuffer ?s ! 0 \<noteq> NUL" by (simp add: buffer_0_NUL)
    have "NUL \<in> set (prefixBuffer ?s)" using p by simp
    from writeHeader_Some [OF o' this, of level now] nz c
    show ?thesis by (simp add: headerCalls_def)
  qed
  show ?thesis
    using p q hdr by (simp add: prefixMaxLen_def partSepMaxLen_def)
qed


theorem copy_truncates_witness:
  "length (prefixBuffer (O3SerialWriter_init\<lparr>out := Some []\<rparr>)) = prefixMaxLen \<and>
   length (partSeparatorBuffer (O3SerialWriter_init\<lparr>out := Some []\<rparr>)) = partSepMaxLen \<and>
   cstr (prefixBuffer (copyPrefix (Some ''0123456789abcdefghijklmnopqrstuvwxyz'')
     (O3SerialWriter_init\<lparr>out := Some []\<rparr>))) = ''0123456789abcdefghijklmnopqrstu'' \<and>
   cstr (prefixBuffer (copyPrefix None (O3SerialWriter_init\<lparr>out := Some []\<rparr>))) = [] \<and>
   cstr (partSeparatorBuffer (copyPartSeparator (Some ''0123456789'')
     (O3SerialWriter_init\<lparr>out := Some []\<rparr>))) = ''0123456'' \<and>
   cstr (partSeparatorBuffer (copyPartSeparator (Some [])
     (O3SerialWriter_init\<lparr>out := Some []\<rparr>))) = '' '' \<and>
   cstr (partSeparatorBuffer (copyPartSeparator None
     (O3SerialWriter_init\<lparr>out := Some []\<rparr>))) = '' '' \<and>
   map_option out (writeHeader Info 0
     ((copyPrefix (Some ''0123456789abcdefghijklmnopqrstuvwxyz'')
        (O3SerialWriter_init\<lparr>out := Some []\<rparr>))\<lparr>showMillis := False, showLevel := False\<rparr>)) =
     Some (Some [Print (Chr CHR ''[''), Print (Str ''0123456789abcdefghijklmnopqrstu''),
                 Print (Str ''] '')])"
  using copy_truncates [of "O3SerialWriter_init\<lparr>out := Some []\<rparr>"
      "Some ''0123456789abcdefghijklmnopqrstuvwxyz''" Info 0]
    copy_truncates [of "O3SerialWriter_init\<lparr>out := Some []\<rparr>" None]
    copy_truncates [of "O3SerialWriter_init\<lparr>out := Some []\<rparr>" "Some ''0123456789''"]
    copy_truncates [of "O3SerialWriter_init\<lparr>out := Some []\<rparr>" "Some []"]
  by (simp add: prefixMaxLen_def partSepMaxLen_def cstr_def)

section \<open>The sink calls of the write operations\<close>

lemma writeParts_Some:
  "out s = Some tr \<Longrightarrow> NUL \<in> set (partSeparatorBuffer s) \<Longrightarrow>
   writeParts first rest s =
     Some (s\<lparr>out := Some (tr @ partsCalls (cstr (partSeparatorBuffer s)) first rest)\<rparr>)"
proof (induction rest arbitrary: first s tr)
  case Nil
  then show ?case by (simp add: writePart_def sink_Some partsCalls_def)
next
  case (Cons r rest)
  let ?b = "s\<lparr>out := Some (tr @ [Print first, Print (Str (cstr (partSeparatorBuffer s)))])\<rparr>"
  have "writeParts first (r # rest) s = writeParts r rest ?b"
    using Cons.prems by (simp add: writePart_def sink_Some sink_buffer_Some)
  also have "\<dots> = Some (?b\<lparr>out := Some ((tr @ [Print first, Print (Str (cstr (partSeparatorBuffer s)))]) @
      partsCalls (cstr (partSeparatorBuffer ?b)) r rest)\<rparr>)"
    using Cons.prems by (intro Cons.IH) simp_all
  finally show ?case by (simp add: partsCalls_def)
qed

lemma canWrite_out: "canWrite s level \<Longrightarrow> \<exists>tr. out s = Some tr"
  by (auto simp: canWrite_def split: if_splits)

lemma printWithLevel_Some:
  assumes "out s = Some tr" "NUL \<in> set (prefixBuffer s)" "canWrite s level"
  shows "printWithLevel level v now s =
         Some (s\<lparr>out := Some (tr @ ensureCalls s level now @ [Print v]),
                 lineOpen := True, activeLevel := level\<rparr>)"
  using assms by (simp add: printWithLevel_def ensureLineHeader_Some sink_Some)

lemma printlnWithLevel_Some:
  assumes "out s = Some tr" "NUL \<in> set (prefixBuffer s)" "canWrite s level"
  shows "printlnWithLevel level v now s =
         Some (s\<lparr>out := Some (tr @ ensureCalls s level now @ [PrintlnVal v]),
                 lineOpen := False, activeLevel := defaultLevel s\<rparr>)"
  using assms by (simp add: printlnWithLevel_def ensureLineHeader_Some sink_Some resetLineState_def)

lemma println0_Some:
  assumes "out s = Some tr" "NUL \<in> set (prefixBuffer s)" "canWrite s (defaultLevel s)"
  shows "println0 now s =
         Some (s\<lparr>out := Some (tr @ ensureCalls s (defaultLevel s) now @ [Println]),
                 lineOpen := False, activeLevel := defaultLevel s\<rparr>)"
  using assms by (simp add: println0_def ensureLineHeader_Some sink_Some resetLineState_def)

lemma line_Some:
  assumes "out s = Some tr" "NUL \<in> set (prefixBuffer s)" "canWrite s level"
  shows "line level m now s =
         Some (s\<lparr>out := Some (tr @ ensureCalls s level now @ [PrintlnVal (Str m)]),
                 lineOpen := False, activeLevel := defaultLevel s\<rparr>)"
  using assms by (simp add: line_def ensureLineHeader_Some sink_Some resetLineState_def)

lemma parts_Some:
  assumes "out s = Some tr" "NUL \<in> set (prefixBuffer s)" "NUL \<in> set (partSeparatorBuffer s)"
    "canWrite s level"
  shows "parts level first rest now s =
         Some (s\<lparr>out := Some (tr @ ensureCalls s level now @
                     partsCalls (cstr (partSeparatorBuffer s)) first rest @ [Println]),
                 lineOpen := False, activeLevel := defaultLevel s\<rparr>)"
  using assms
  by (simp add: parts_def ensureLineHeader_Some writeParts_Some sink_Some resetLineState_def)

section \<open>The class invariant\<close>

lemma configure_fields [simp]:
  "out (configure options s) = out s" "enabled (configure options s) = enabled s"
  "showMillis (configure options s) = opt_showMillis options"
  "showLevel (configure options s) = opt_showLevel options"
  "minLevel (configure options s) = opt_minLevel options"
  "defaultLevel (configure options s) = defaultLevel s"
  "lineOpen (configure options s) = False"
  "activeLevel (configure options s) = defaultLevel s"
  "prefixBuffer (configure options s) = prefixBuffer (copyPrefix (opt_prefix options) s)"
  "partSeparatorBuffer (configure options s) =
     partSeparatorBuffer (copyPartSeparator (opt_partSeparator options) s)"
  by (simp_all add: configure_def resetLineState_def copyPartSeparator_def copyPrefix_def
      Let_def case_prod_beta)

lemma buffers_ok_copyPrefix: "buffers_ok s \<Longrightarrow> buffers_ok (copyPrefix v s)"
  using copyPrefix_stored [of s v] by (simp add: buffers_ok_def)

lemma buffers_ok_copyPartSeparator: "buffers_ok s \<Longrightarrow> buffers_ok (copyPartSeparator v s)"
  using copyPartSeparator_stored [of s v] by (simp add: buffers_ok_def)

lemma buffers_ok_configure: "buffers_ok s \<Longrightarrow> buffers_ok (configure options s)"
  using copyPrefix_stored [of s "opt_prefix options"]
    copyPartSeparator_stored [of s "opt_partSeparator options"]
  by (simp add: buffers_ok_def)

lemma writer_inv_init: "writer_inv O3SerialWriter_init"
  by (simp add: writer_inv_def buffers_ok_def prefixMaxLen_def partSepMaxLen_def)

lemma writer_inv_frame:
  assumes "writer_inv s"
  shows "writer_inv (s\<lparr>out := x\<rparr>)" "writer_inv (s\<lparr>minLevel := m\<rparr>)"
    "writer_inv (s\<lparr>enabled := e\<rparr>)"
    "writer_inv (s\<lparr>out := x, lineOpen := True, activeLevel := l\<rparr>)"
    "writer_inv (s\<lparr>out := x, lineOpen := False, activeLevel := defaultLevel s\<rparr>)"
    "writer_inv (s\<lparr>enabled := e, lineOpen := False, activeLevel := defaultLevel s\<rparr>)"
  using assms by (simp_all add: writer_inv_def buffers_ok_def)

lemma writer_inv_configure: "writer_inv s \<Longrightarrow> writer_inv (configure options s)"
  using buffers_ok_configure [of s options] by (simp add: writer_inv_def)

lemma gated_write_inv:
  assumes "writer_inv s"
  shows "\<exists>s'. printWithLevel level v now s = Some s' \<and> writer_inv s'"
    and "\<exists>s'. printlnWithLevel level v now s = Some s' \<and> writer_inv s'"
    and "\<exists>s'. line level m now s = Some s' \<and> writer_inv s'"
    and "\<exists>s'. parts level first rest now s = Some s' \<and> writer_inv s'"
    and "\<exists>s'. println0 now s = Some s' \<and> writer_inv s'"
proof -
  have b: "NUL \<in> set (prefixBuffer s)" "NUL \<in> set (partSeparatorBuffer s)"
    using assms by (simp_all add: writer_inv_def buffers_ok_def)
  show "\<exists>s'. printWithLevel level v now s = Some s' \<and> writer_inv s'"
  proof (cases "canWrite s level")
    case True
    then obtain tr where "out s = Some tr" using canWrite_out by blast
    then show ?thesis
      using True b assms by (simp add: printWithLevel_Some writer_inv_frame)
  next
    case False
    then show ?thesis using assms by (simp add: printWithLevel_def)
  qed
  show "\<exists>s'. printlnWithLevel level v now s = Some s' \<and> writer_inv s'"
  proof (cases "canWrite s level")
    case True
    then obtain tr where "out s = Some tr" using canWrite_out by blast
    then show ?thesis
      using True b assms by (simp add: printlnWithLevel_Some writer_inv_frame)
  next
    case False
    then show ?thesis using assms by (simp add: printlnWithLevel_def)
  qed
  show "\<exists>s'. line level m now s = Some s' \<and> writer_inv s'"
  proof (cases "canWrite s level")
    case True
    then obtain tr where "out s = Some tr" using canWrite_out by blast
    then show ?thesis
      using True b assms by (simp add: line_Some writer_inv_frame)
  next
    case False
    then show ?thesis using assms by (simp add: line_def)
  qed
  show "\<exists>s'. parts level first rest now s = Some s' \<and> writer_inv s'"
  proof (cases "canWrite s level")
    case True
    then obtain tr where "out s = Some tr" using canWrite_out by blast
    then show ?thesis
      using True b assms by (simp add: parts_Some writer_inv_frame)
  next
    case False
    then show ?thesis using assms by (simp add: parts_def)
  qed
  show "\<exists>s'. println0 now s = Some s' \<and> writer_inv s'"
  proof (cases "canWrite s (defaultLevel s)")
    case True
    then obtain tr where "out s = Some tr" using canWrite_out by blast
    then show ?thesis
      using True b assms by (simp add: println0_Some writer_inv_frame)
  next
    case False
    then show ?thesis using assms by (simp add: println0_def)
  qed
qed

lemma exec_total: "writer_inv s \<Longrightarrow> \<exists>s'. exec c now s = Some s' \<and> writer_inv s'"
proof (cases c)
  case (Begin stream options)
  assume "writer_inv s"
  then have "writer_inv (configure options (s\<lparr>out := Some stream\<rparr>))"
    by (intro writer_inv_configure writer_inv_frame)
  then show ?thesis using Begin by (simp add: begin_stream_def)
next
  case (SetPrefix v)
  assume "writer_inv s"
  then show ?thesis using SetPrefix buffers_ok_copyPrefix [of s v]
    by (simp add: setPrefix_def writer_inv_def)
next
  case (SetPartSeparator v)
  assume "writer_inv s"
  then show ?thesis using SetPartSeparator buffers_ok_copyPartSeparator [of s v]
    by (simp add: setPartSeparator_def writer_inv_def)
next
  case (SetEnabled b)
  assume "writer_inv s"
  then show ?thesis using SetEnabled
    by (simp add: setEnabled_def resetLineState_def Let_def writer_inv_frame)
qed (simp_all add: writer_inv_configure setMinLevel_def writer_inv_frame gated_write_inv
      print_def println_def debug_def info_def warn_def error_def
      debug_parts_def info_parts_def warn_parts_def error_parts_def)

lemma reachable_inv: "reachable s \<Longrightarrow> writer_inv s"
proof (induction rule: reachable.induct)
  case init
  show ?case by (rule writer_inv_init)
next
  case (step s c now s')
  then show ?case using exec_total [of s c now] by auto
qed

section \<open>The default level\<close>

lemma replicate_update_same [simp]: "(replicate n x)[i := x] = replicate n x"
  by (induction n arbitrary: i) (auto split: nat.split)

lemma begin_default:
  "begin_stream st O3SerialWriterOptions_init O3SerialWriter_init = O3SerialWriter_init\<lparr>out := Some st\<rparr>"
  by (simp add: begin_stream_def configure_def copyPrefix_def copyPartSeparator_def
      resetLineState_def O3SerialWriterOptions_init_def O3SerialWriter_init_def
      prefixMaxLen_def partSepMaxLen_def copyLoop.simps cchar_def)

lemma reachable_attached: "reachable (O3SerialWriter_init\<lparr>out := Some st\<rparr>)"
  using reachable.step [OF reachable.init, of "Begin st O3SerialWriterOptions_init" 0]
  by (simp add: begin_default)

text \<open>
  Claim C9. On every state the object can reach, \<open>defaultLevel\<close> is \<open>Info\<close>:
  \<open>print(value)\<close> and \<open>println(value)\<close> are \<open>printWithLevel\<close> and
  \<open>printlnWithLevel\<close> at \<open>Info\<close>; with \<open>println()\<close> they do nothing unless
  \<open>canWrite(Info)\<close>, and otherwise open the line at \<open>Info\<close> (the header, when it
  carries a label, ends with \<open>INFO: \<close>); and resetting the line state sets
  \<open>activeLevel\<close> to \<open>Info\<close>.
\<close>

theorem default_level_Info:
  assumes "reachable s"
  shows "defaultLevel s = Info \<and>
         print v now s = printWithLevel Info v now s \<and>
         println v now s = printlnWithLevel Info v now s \<and>
         (\<not> canWrite s Info \<longrightarrow>
            print v now s = Some s \<and> println v now s = Some s \<and> println0 now s = Some s) \<and>
         (\<forall>tr. canWrite s Info \<and> out s = Some tr \<longrightarrow>
            print v now s =
              Some (s\<lparr>out := Some (tr @ ensureCalls s Info now @ [Print v]),
                      lineOpen := True, activeLevel := Info\<rparr>) \<and>
            println v now s =
              Some (s\<lparr>out := Some (tr @ ensureCalls s Info now @ [PrintlnVal v]),
                      lineOpen := False, activeLevel := Info\<rparr>) \<and>
            println0 now s =
              Some (s\<lparr>out := Some (tr @ ensureCalls s Info now @ [Println]),
                      lineOpen := False, activeLevel := Info\<rparr>)) \<and>
         (showLevel s \<longrightarrow>
            headerCalls s Info now =
              headerCalls (s\<lparr>showLevel := False\<rparr>) Info now @
              [Print (Str ''INFO''), Print (Str '': '')]) \<and>
         resetLineState s = s\<lparr>lineOpen := False, activeLevel := Info\<rparr>"
proof -
  have inv: "writer_inv s" using assms by (rule reachable_inv)
  then have d: "defaultLevel s = Info" and b: "NUL \<in> set (prefixBuffer s)"
    by (simp_all add: writer_inv_def buffers_ok_def)
  have gated: "print v now s = Some s \<and> println v now s = Some s \<and> println0 now s = Some s"
    if "\<not> canWrite s Info"
    using that d by (simp add: print_def println_def println0_def printWithLevel_def
        printlnWithLevel_def)
  have pass: "print v now s =
              Some (s\<lparr>out := Some (tr @ ensureCalls s Info now @ [Print v]),
                      lineOpen := True, activeLevel := Info\<rparr>) \<and>
            println v now s =
              Some (s\<lparr>out := Some (tr @ ensureCalls s Info now @ [PrintlnVal v]),
                      lineOpen := False, activeLevel := Info\<rparr>) \<and>
            println0 now s =
              Some (s\<lparr>out := Some (tr @ ensureCalls s Info now @ [Println]),
                      lineOpen := False, activeLevel := Info\<rparr>)"
    if "canWrite s Info \<and> out s = Some tr" for tr
    using that d b printWithLevel_Some [of s tr Info v now]
      printlnWithLevel_Some [of s tr Info v now] println0_Some [of s tr now]
    by (simp add: print_def println_def)
  have lab: "headerCalls s Info now =
              headerCalls (s\<lparr>showLevel := False\<rparr>) Info now @
              [Print (Str ''INFO''), Print (Str '': '')]" if "showLevel s"
    using that by (simp add: headerCalls_def levelText_def)
  show ?thesis
    using d gated pass lab by (simp add: print_def println_def resetLineState_def)
qed

theorem default_level_Info_witness:
  "reachable (O3SerialWriter_init\<lparr>out := Some []\<rparr>) \<and>
   canWrite (O3SerialWriter_init\<lparr>out := Some []\<rparr>) Info \<and>
   print (Str ''x'') 3 (O3SerialWriter_init\<lparr>out := Some []\<rparr>) =
     Some (O3SerialWriter_init\<lparr>out := Some [Print (ULong 3), Print (Chr CHR '' ''),
       Print (Str ''INFO''), Print (Str '': ''), Print (Str ''x'')], lineOpen := True, activeLevel := Info\<rparr>) \<and>
   println (Str ''x'') 3 (O3SerialWriter_init\<lparr>out := Some []\<rparr>) =
     Some (O3SerialWriter_init\<lparr>out := Some [Print (ULong 3), Print (Chr CHR '' ''),
       Print (Str ''INFO''), Print (Str '': ''), PrintlnVal (Str ''x'')], lineOpen := False, activeLevel := Info\<rparr>) \<and>
   println0 3 (O3SerialWriter_init\<lparr>out := Some []\<rparr>) =
     Some (O3SerialWriter_init\<lparr>out := Some [Print (ULong 3), Print (Chr CHR '' ''),
       Print (Str ''INFO''), Print (Str '': ''), Println], lineOpen := False, activeLevel := Info\<rparr>) \<and>
   \<not> canWrite (O3SerialWriter_init\<lparr>out := Some [], minLevel := Warn\<rparr>) Info \<and>
   reachable (O3SerialWriter_init\<lparr>out := Some [], minLevel := Warn\<rparr>) \<and>
   print (Str ''x'') 3 (O3SerialWriter_init\<lparr>out := Some [], minLevel := Warn\<rparr>) =
     Some (O3SerialWriter_init\<lparr>out := Some [], minLevel := Warn\<rparr>)"
proof -
  have r: "reachable (O3SerialWriter_init\<lparr>out := Some []\<rparr>)" by (rule reachable_attached)
  have "exec (SetMinLevel Warn) 0 (O3SerialWriter_init\<lparr>out := Some []\<rparr>) =
      Some (O3SerialWriter_init\<lparr>out := Some [], minLevel := Warn\<rparr>)"
    by (simp add: setMinLevel_def)
  with r have r': "reachable (O3SerialWriter_init\<lparr>out := Some [], minLevel := Warn\<rparr>)"
    by (rule reachable.step)
  have c: "canWrite (O3SerialWriter_init\<lparr>out := Some []\<rparr>) Info"
    "\<not> canWrite (O3SerialWriter_init\<lparr>out := Some [], minLevel := Warn\<rparr>) Info"
    by (simp_all add: canWrite_def word_le_nat_alt)
  show ?thesis
    using default_level_Info [OF r, of "Str ''x''" 3] default_level_Info [OF r', of "Str ''x''" 3]
      r r' c
    by (simp add: ensureCalls_def headerCalls_def levelText_def print_def println_def)
qed

section \<open>Resetting the line state\<close>

lemma terminates_exec:
  assumes "writer_inv s" "terminates c s" "exec c now s = Some s'"
  shows "\<not> lineOpen s' \<and> activeLevel s' = defaultLevel s"
proof -
  have b: "NUL \<in> set (prefixBuffer s)" "NUL \<in> set (partSeparatorBuffer s)"
    using assms(1) by (simp_all add: writer_inv_def buffers_ok_def)
  obtain l where cw: "canWrite s l" using assms(2) by (cases c) auto
  then obtain tr where o: "out s = Some tr" using canWrite_out by blast
  show ?thesis
    using assms(2,3) b o
    by (cases c)
       (auto simp: println_def debug_def info_def warn_def error_def
          debug_parts_def info_parts_def warn_parts_def error_parts_def
          printlnWithLevel_Some println0_Some line_Some parts_Some)
qed

lemma resets_exec:
  assumes "writer_inv s" "resets c s" "exec c now s = Some s'"
  shows "\<not> lineOpen s' \<and> activeLevel s' = defaultLevel s"
proof (cases "terminates c s")
  case True
  then show ?thesis using assms terminates_exec by blast
next
  case False
  then show ?thesis
    using assms(2,3)
    by (cases c) (auto simp: begin_stream_def setEnabled_def resetLineState_def)
qed

lemma gated_exec:
  "\<not> canWrite s level \<Longrightarrow> printWithLevel level v now s = Some s"
  "\<not> canWrite s level \<Longrightarrow> printlnWithLevel level v now s = Some s"
  "\<not> canWrite s level \<Longrightarrow> line level m now s = Some s"
  "\<not> canWrite s level \<Longrightarrow> parts level first rest now s = Some s"
  "\<not> canWrite s (defaultLevel s) \<Longrightarrow> println0 now s = Some s"
  by (simp_all add: printWithLevel_def printlnWithLevel_def line_def parts_def println0_def)

lemma printWithLevel_open:
  assumes "writer_inv s" "lineOpen s" "printWithLevel level v now s = Some s'"
  shows "lineOpen s'"
proof (cases "canWrite s level")
  case True
  then obtain tr where "out s = Some tr" using canWrite_out by blast
  then show ?thesis
    using assms True printWithLevel_Some [of s tr level v now]
    by (auto simp: writer_inv_def buffers_ok_def)
next
  case False
  then show ?thesis using assms by (simp add: gated_exec)
qed

lemma no_reset_exec:
  assumes "writer_inv s" "\<not> resets c s" "lineOpen s" "exec c now s = Some s'"
  shows "lineOpen s'"
  using assms
  by (cases c)
     (auto simp: setPrefix_def setMinLevel_def setPartSeparator_def setEnabled_def
        print_def println_def debug_def info_def warn_def error_def
        debug_parts_def info_parts_def warn_parts_def error_parts_def gated_exec
        dest: printWithLevel_open)

text \<open>
  Claim C7. \<open>configure\<close> and \<open>setEnabled(false)\<close> leave the line state at
  \<open>(false, defaultLevel)\<close>, and so does every operation that terminates a line (a
  \<open>println\<close>, single-message or multi-part call that passes \<open>canWrite\<close>) or reconfigures;
  no other operation closes an open line. \<open>setPrefix\<close>, \<open>setMinLevel\<close> and
  \<open>setPartSeparator\<close> change their own field only: line state and the calls already
  made on the sink stay as they were.
\<close>

theorem line_state_reset:
  assumes "writer_inv s"
  shows "\<not> lineOpen (configure options s) \<and> activeLevel (configure options s) = defaultLevel s \<and>
         setEnabled False s = s\<lparr>enabled := False, lineOpen := False, activeLevel := defaultLevel s\<rparr> \<and>
         setEnabled True s = s\<lparr>enabled := True\<rparr> \<and>
         (\<forall>c s'. exec c now s = Some s' \<and> resets c s \<longrightarrow>
            \<not> lineOpen s' \<and> activeLevel s' = defaultLevel s) \<and>
         (\<forall>c s'. exec c now s = Some s' \<and> \<not> resets c s \<and> lineOpen s \<longrightarrow> lineOpen s') \<and>
         setPrefix v s = s\<lparr>prefixBuffer := prefixBuffer (setPrefix v s)\<rparr> \<and>
         setMinLevel level s = s\<lparr>minLevel := level\<rparr> \<and>
         setPartSeparator v s = s\<lparr>partSeparatorBuffer := partSeparatorBuffer (setPartSeparator v s)\<rparr> \<and>
         lineOpen (setPrefix v s) = lineOpen s \<and> activeLevel (setPrefix v s) = activeLevel s \<and>
         out (setPrefix v s) = out s \<and>
         lineOpen (setMinLevel level s) = lineOpen s \<and>
         activeLevel (setMinLevel level s) = activeLevel s \<and>
         out (setMinLevel level s) = out s \<and>
         lineOpen (setPartSeparator v s) = lineOpen s \<and>
         activeLevel (setPartSeparator v s) = activeLevel s \<and>
         out (setPartSeparator v s) = out s"
proof -
  have len: "length (prefixBuffer s) = prefixMaxLen" "length (partSeparatorBuffer s) = partSepMaxLen"
    using assms by (simp_all add: writer_inv_def buffers_ok_def)
  have p: "setPrefix v s = s\<lparr>prefixBuffer := prefixBuffer (setPrefix v s)\<rparr>"
    using copyPrefix_stored [OF len(1), of v] by (simp add: setPrefix_def)
  have q: "setPartSeparator v s = s\<lparr>partSeparatorBuffer := partSeparatorBuffer (setPartSeparator v s)\<rparr>"
    using copyPartSeparator_stored [OF len(2), of v] by (simp add: setPartSeparator_def)
  have r: "\<forall>c s'. exec c now s = Some s' \<and> resets c s \<longrightarrow>
            \<not> lineOpen s' \<and> activeLevel s' = defaultLevel s"
    using resets_exec [OF assms] by blast
  have n: "\<forall>c s'. exec c now s = Some s' \<and> \<not> resets c s \<and> lineOpen s \<longrightarrow> lineOpen s'"
    using no_reset_exec [OF assms] by blast
  have e: "setEnabled False s = s\<lparr>enabled := False, lineOpen := False, activeLevel := defaultLevel s\<rparr>"
    "setEnabled True s = s\<lparr>enabled := True\<rparr>"
    by (simp_all add: setEnabled_def resetLineState_def)
  have f: "lineOpen (setPrefix v s) = lineOpen s" "activeLevel (setPrefix v s) = activeLevel s"
    "out (setPrefix v s) = out s" "lineOpen (setMinLevel level s) = lineOpen s"
    "activeLevel (setMinLevel level s) = activeLevel s" "out (setMinLevel level s) = out s"
    "lineOpen (setPartSeparator v s) = lineOpen s"
    "activeLevel (setPartSeparator v s) = activeLevel s" "out (setPartSeparator v s) = out s"
    by (simp_all add: setPrefix_def setMinLevel_def setPartSeparator_def)
  have m: "setMinLevel level s = s\<lparr>minLevel := level\<rparr>" by (simp add: setMinLevel_def)
  have c: "\<not> lineOpen (configure options s)" "activeLevel (configure options s) = defaultLevel s"
    by simp_all
  from c e r n p m q f show ?thesis by (intro conjI)
qed


theorem line_state_reset_witness:
  "writer_inv (O3SerialWriter_init\<lparr>out := Some [], lineOpen := True\<rparr>) \<and>
   resets (CallInfo ''x'') (O3SerialWriter_init\<lparr>out := Some [], lineOpen := True\<rparr>) \<and>
   exec (CallInfo ''x'') 1 (O3SerialWriter_init\<lparr>out := Some [], lineOpen := True\<rparr>) =
     Some (O3SerialWriter_init\<lparr>out := Some [PrintlnVal (Str ''x'')], lineOpen := False,
             activeLevel := Info\<rparr>) \<and>
   \<not> lineOpen (O3SerialWriter_init\<lparr>out := Some [PrintlnVal (Str ''x'')], lineOpen := False,
             activeLevel := Info\<rparr>) \<and>
   \<not> resets (SetMinLevel Warn) (O3SerialWriter_init\<lparr>out := Some [], lineOpen := True\<rparr>) \<and>
   exec (SetMinLevel Warn) 1 (O3SerialWriter_init\<lparr>out := Some [], lineOpen := True\<rparr>) =
     Some (O3SerialWriter_init\<lparr>out := Some [], lineOpen := True, minLevel := Warn\<rparr>) \<and>
   lineOpen (O3SerialWriter_init\<lparr>out := Some [], lineOpen := True, minLevel := Warn\<rparr>)"
proof -
  let ?s = "O3SerialWriter_init\<lparr>out := Some [], lineOpen := True\<rparr>"
  have inv: "writer_inv ?s"
    using writer_inv_init by (simp add: writer_inv_def buffers_ok_def)
  have cw: "canWrite ?s Info" by (simp add: canWrite_def)
  have e1: "exec (CallInfo ''x'') 1 ?s =
      Some (O3SerialWriter_init\<lparr>out := Some [PrintlnVal (Str ''x'')], lineOpen := False,
              activeLevel := Info\<rparr>)"
    using line_Some [of ?s "[]" Info "''x''" 1] cw
    by (simp add: info_def ensureCalls_def)
  have e2: "exec (SetMinLevel Warn) 1 ?s =
      Some (O3SerialWriter_init\<lparr>out := Some [], lineOpen := True, minLevel := Warn\<rparr>)"
    by (simp add: setMinLevel_def)
  from line_state_reset [OF inv, of O3SerialWriterOptions_init 1 None Warn] inv cw e1 e2
  show ?thesis by simp
qed

section \<open>The format of a line\<close>

lemma sink_bytes_append [simp]: "sink_bytes (a @ b) = sink_bytes a @ sink_bytes b"
  by (simp add: sink_bytes_def)

lemma sink_bytes_Cons [simp]: "sink_bytes (c # cs) = call_bytes c @ sink_bytes cs"
  by (simp add: sink_bytes_def)

lemma sink_bytes_Nil [simp]: "sink_bytes [] = []"
  by (simp add: sink_bytes_def)

lemma cstr_cstr [simp]: "cstr (cstr v) = cstr v"
  by (simp add: cstr_def)

lemma cstr_levelText [simp]: "cstr (levelText level) = levelText level"
  by (simp add: levelText_def cstr_def)

lemma cstr_literals [simp]: "cstr ''] '' = ''] ''" "cstr '': '' = '': ''"
  by (simp_all add: cstr_def)

lemma sink_bytes_headerCalls:
  "prefixBuffer s \<noteq> [] \<Longrightarrow>
   sink_bytes (headerCalls s level now) =
     header_format (cstr (prefixBuffer s)) (showMillis s) (showLevel s) now level"
  by (simp add: headerCalls_def header_format_def buffer_0_NUL)

lemma sink_bytes_partsCalls:
  "sink_bytes (partsCalls (cstr sep) first rest) =
     toText first @ concat (map (\<lambda>r. cstr sep @ toText r) rest)"
  by (induction rest) (simp_all add: partsCalls_def)

lemma sink_text_Some [simp]: "sink_text (Some a) = map_option sink_bytes (out a)"
  by (simp add: sink_text_def)



section \<open>Multi-part lines\<close>

text \<open>
  Claim C4, as stated, fails when the call finds a line open: at the same level
  \<open>ensureLineHeader\<close> writes nothing, so the call sends no header at all.
\<close>

theorem parts_open_line_counterexample:
  "printWithLevel Info (Str ''a'') 1 (O3SerialWriter_init\<lparr>out := Some []\<rparr>) =
     Some (O3SerialWriter_init\<lparr>out := Some [Print (ULong 1), Print (Chr CHR '' ''),
       Print (Str ''INFO''), Print (Str '': ''), Print (Str ''a'')],
       lineOpen := True, activeLevel := Info\<rparr>) \<and>
   canWrite (O3SerialWriter_init\<lparr>out := Some [Print (ULong 1), Print (Chr CHR '' ''),
       Print (Str ''INFO''), Print (Str '': ''), Print (Str ''a'')],
       lineOpen := True, activeLevel := Info\<rparr>) Info \<and>
   parts Info (Str ''b'') [Str ''c''] 2
     (O3SerialWriter_init\<lparr>out := Some [Print (ULong 1), Print (Chr CHR '' ''),
       Print (Str ''INFO''), Print (Str '': ''), Print (Str ''a'')],
       lineOpen := True, activeLevel := Info\<rparr>) =
     Some (O3SerialWriter_init\<lparr>out := Some ([Print (ULong 1), Print (Chr CHR '' ''),
       Print (Str ''INFO''), Print (Str '': ''), Print (Str ''a'')] @
       [Print (Str ''b''), Print (Str '' ''), Print (Str ''c''), Println]),
       lineOpen := False, activeLevel := Info\<rparr>) \<and>
   headerCalls (O3SerialWriter_init\<lparr>out := Some [Print (ULong 1), Print (Chr CHR '' ''),
       Print (Str ''INFO''), Print (Str '': ''), Print (Str ''a'')],
       lineOpen := True, activeLevel := Info\<rparr>) Info 2 =
     [Print (ULong 2), Print (Chr CHR '' ''), Print (Str ''INFO''), Print (Str '': '')] \<and>
   [Print (Str ''b''), Print (Str '' ''), Print (Str ''c''), Println] \<noteq>
     [Print (ULong 2), Print (Chr CHR '' ''), Print (Str ''INFO''), Print (Str '': '')] @
     [Print (Str ''b''), Print (Str '' ''), Print (Str ''c''), Println]"
proof -
  let ?s0 = "O3SerialWriter_init\<lparr>out := Some []\<rparr>"
  let ?tr = "[Print (ULong 1), Print (Chr CHR '' ''),
       Print (Str ''INFO''), Print (Str '': ''), Print (Str ''a'')]"
  let ?s1 = "O3SerialWriter_init\<lparr>out := Some ?tr, lineOpen := True, activeLevel := Info\<rparr>"
  have c0: "canWrite ?s0 Info" and c1: "canWrite ?s1 Info" by (simp_all add: canWrite_def)
  have 1: "printWithLevel Info (Str ''a'') 1 ?s0 = Some ?s1"
    using printWithLevel_Some [of ?s0 "[]" Info "Str ''a''" 1] c0
    by (simp add: ensureCalls_def headerCalls_def levelText_def)
  have 2: "parts Info (Str ''b'') [Str ''c''] 2 ?s1 =
      Some (O3SerialWriter_init\<lparr>out := Some (?tr @
         [Print (Str ''b''), Print (Str '' ''), Print (Str ''c''), Println]),
         lineOpen := False, activeLevel := Info\<rparr>)"
    using parts_Some [of ?s1 ?tr Info "Str ''b''" "[Str ''c'']" 2] c1
    by (simp add: ensureCalls_def partsCalls_def cstr_def)
  have 3: "headerCalls ?s1 Info 2 =
      [Print (ULong 2), Print (Chr CHR '' ''), Print (Str ''INFO''), Print (Str '': '')]"
    by (simp add: headerCalls_def levelText_def)
  have 4: "[Print (Str ''b''), Print (Str '' ''), Print (Str ''c''), Println] \<noteq>
     [Print (ULong 2), Print (Chr CHR '' ''), Print (Str ''INFO''), Print (Str '': '')] @
     [Print (Str ''b''), Print (Str '' ''), Print (Str ''c''), Println]"
    by simp
  from 1 c1 2 3 4 show ?thesis by (intro conjI)
qed

text \<open>
  Claim C4, amended. A multi-part call that passes \<open>canWrite\<close> sends what
  \<open>ensureLineHeader\<close> sends (exactly one header when no line is open; a line break and
  then one header when a line is open at another level; nothing when a line is open at
  the same level), then the first part, then for each of the other \<open>N - 1\<close> parts the
  stored separator and the part, then one line break, and closes the line.
\<close>

theorem parts_calls:
  assumes "out s = Some tr" and "buffers_ok s" and "canWrite s level"
  shows "parts level first rest now s =
           Some (s\<lparr>out := Some (tr @
                     (if \<not> lineOpen s then headerCalls s level now
                      else if level \<noteq> activeLevel s then Println # headerCalls s level now
                      else []) @
                     Print first #
                     concat (map (\<lambda>r. [Print (Str (cstr (partSeparatorBuffer s))), Print r]) rest) @
                     [Println]),
                   lineOpen := False, activeLevel := defaultLevel s\<rparr>) \<and>
         length (concat (map (\<lambda>r. [Print (Str (cstr (partSeparatorBuffer s))), Print r]) rest)) =
           2 * length rest \<and>
         sink_bytes (Print first #
             concat (map (\<lambda>r. [Print (Str (cstr (partSeparatorBuffer s))), Print r]) rest)) =
           toText first @ concat (map (\<lambda>r. cstr (partSeparatorBuffer s) @ toText r) rest)"
proof -
  have b: "NUL \<in> set (prefixBuffer s)" "NUL \<in> set (partSeparatorBuffer s)"
    using assms(2) by (simp_all add: buffers_ok_def)
  have 1: "parts level first rest now s =
           Some (s\<lparr>out := Some (tr @
                     (if \<not> lineOpen s then headerCalls s level now
                      else if level \<noteq> activeLevel s then Println # headerCalls s level now
                      else []) @
                     Print first #
                     concat (map (\<lambda>r. [Print (Str (cstr (partSeparatorBuffer s))), Print r]) rest) @
                     [Println]),
                   lineOpen := False, activeLevel := defaultLevel s\<rparr>)"
    using parts_Some [OF assms(1) b assms(3), of first rest now]
    by (simp add: ensureCalls_def partsCalls_def)
  have 2: "length (concat (map (\<lambda>r. [Print (Str (cstr (partSeparatorBuffer s))), Print r]) rest)) =
           2 * length rest"
    by (induction rest) simp_all
  have 3: "sink_bytes (Print first #
             concat (map (\<lambda>r. [Print (Str (cstr (partSeparatorBuffer s))), Print r]) rest)) =
           toText first @ concat (map (\<lambda>r. cstr (partSeparatorBuffer s) @ toText r) rest)"
    using sink_bytes_partsCalls [of "partSeparatorBuffer s" first rest]
    by (simp add: partsCalls_def)
  from 1 2 3 show ?thesis by (intro conjI)
qed

theorem parts_calls_witness:
  "out (O3SerialWriter_init\<lparr>out := Some [], showMillis := False\<rparr>) = Some [] \<and>
   buffers_ok (O3SerialWriter_init\<lparr>out := Some [], showMillis := False\<rparr>) \<and>
   canWrite (O3SerialWriter_init\<lparr>out := Some [], showMillis := False\<rparr>) Info \<and>
   parts Info (Str ''Backoff'') [SLong 250, Str ''ms''] 0
       (O3SerialWriter_init\<lparr>out := Some [], showMillis := False\<rparr>) =
     Some (O3SerialWriter_init\<lparr>out := Some [Print (Str ''INFO''), Print (Str '': ''),
         Print (Str ''Backoff''), Print (Str '' ''), Print (SLong 250), Print (Str '' ''),
         Print (Str ''ms''), Println],
       showMillis := False, lineOpen := False, activeLevel := Info\<rparr>) \<and>
   sink_bytes [Print (Str ''INFO''), Print (Str '': ''),
         Print (Str ''Backoff''), Print (Str '' ''), Print (SLong 250), Print (Str '' ''),
         Print (Str ''ms''), Println] = ''INFO: Backoff 250 ms'' @ lineBreak"
proof -
  let ?s = "O3SerialWriter_init\<lparr>out := Some [], showMillis := False\<rparr>"
  have o: "out ?s = Some []" by simp
  have b: "buffers_ok ?s" by (simp add: buffers_ok_def prefixMaxLen_def partSepMaxLen_def)
  have c: "canWrite ?s Info" by (simp add: canWrite_def)
  have n: "printNumber 250 [] = ''250''" by (simp add: printNumber.simps digit_char_def)
  have t: "sink_bytes [Print (Str ''INFO''), Print (Str '': ''),
         Print (Str ''Backoff''), Print (Str '' ''), Print (SLong 250), Print (Str '' ''),
         Print (Str ''ms''), Println] = ''INFO: Backoff 250 ms'' @ lineBreak"
    using n by (simp add: cstr_def)
  from parts_calls [OF o b c, of "Str ''Backoff''" "[SLong 250, Str ''ms'']" 0] o b c t
  show ?thesis by (simp add: headerCalls_def levelText_def cstr_def)
qed

section \<open>Two identical calls\<close>

lemma canWrite_cong:
  "enabled a = enabled s \<Longrightarrow> (out a = None \<longleftrightarrow> out s = None) \<Longrightarrow> minLevel a = minLevel s \<Longrightarrow>
   canWrite a L = canWrite s L"
  by (simp add: canWrite_def)

lemma line_closed_bytes:
  assumes "out s = Some tr" "buffers_ok s" "canWrite s level" "\<not> lineOpen s"
  shows "line level m now s =
           Some (s\<lparr>out := Some (tr @ headerCalls s level now @ [PrintlnVal (Str m)]),
                   lineOpen := False, activeLevel := defaultLevel s\<rparr>)"
    and "sink_bytes (tr @ headerCalls s level now @ [PrintlnVal (Str m)]) =
           sink_bytes tr @
           line_format (cstr (prefixBuffer s)) (showMillis s) (showLevel s) now level (cstr m)"
proof -
  have b: "NUL \<in> set (prefixBuffer s)" "prefixBuffer s \<noteq> []"
    using assms(2) by (auto simp: buffers_ok_def prefixMaxLen_def)
  show "line level m now s =
           Some (s\<lparr>out := Some (tr @ headerCalls s level now @ [PrintlnVal (Str m)]),
                   lineOpen := False, activeLevel := defaultLevel s\<rparr>)"
    using line_Some [OF assms(1) b(1) assms(3), of m now] assms(4) by (simp add: ensureCalls_def)
  show "sink_bytes (tr @ headerCalls s level now @ [PrintlnVal (Str m)]) =
           sink_bytes tr @
           line_format (cstr (prefixBuffer s)) (showMillis s) (showLevel s) now level (cstr m)"
    using b(2) by (simp add: sink_bytes_headerCalls line_format_def)
qed

lemma header_format_no_millis:
  "header_format p False lv now1 level = header_format p False lv now2 level"
  by (simp add: header_format_def)

text \<open>
  Claim C6, as stated, fails with the timestamp shown (the default): the two lines carry
  the value of \<open>millis()\<close> at their own call.
\<close>

theorem line_twice_counterexample:
  "sink_text (info ''x'' 1 (begin_stream [] O3SerialWriterOptions_init O3SerialWriter_init)) =
     Some (''1 INFO: x'' @ lineBreak) \<and>
   sink_text (info ''x'' 2 (begin_stream [] O3SerialWriterOptions_init O3SerialWriter_init)) =
     Some (''2 INFO: x'' @ lineBreak) \<and>
   sink_text (info ''x'' 1 (begin_stream [] O3SerialWriterOptions_init O3SerialWriter_init) \<bind>
              info ''x'' 2) =
     Some ((''1 INFO: x'' @ lineBreak) @ (''2 INFO: x'' @ lineBreak)) \<and>
   ''1 INFO: x'' @ lineBreak \<noteq> ''2 INFO: x'' @ lineBreak"
proof -
  let ?s = "O3SerialWriter_init\<lparr>out := Some []\<rparr>"
  have c: "canWrite ?s Info" by (simp add: canWrite_def)
  have n: "printNumber 1 [] = ''1''" "printNumber 2 [] = ''2''"
    by (simp_all add: printNumber.simps digit_char_def)
  have 1: "info ''x'' 1 ?s =
      Some (O3SerialWriter_init\<lparr>out := Some [Print (ULong 1), Print (Chr CHR '' ''),
        Print (Str ''INFO''), Print (Str '': ''), PrintlnVal (Str ''x'')],
        lineOpen := False, activeLevel := Info\<rparr>)"
    using line_Some [of ?s "[]" Info "''x''" 1] c
    by (simp add: info_def ensureCalls_def headerCalls_def levelText_def)
  have 2: "info ''x'' 2 ?s =
      Some (O3SerialWriter_init\<lparr>out := Some [Print (ULong 2), Print (Chr CHR '' ''),
        Print (Str ''INFO''), Print (Str '': ''), PrintlnVal (Str ''x'')],
        lineOpen := False, activeLevel := Info\<rparr>)"
    using line_Some [of ?s "[]" Info "''x''" 2] c
    by (simp add: info_def ensureCalls_def headerCalls_def levelText_def)
  let ?s1 = "O3SerialWriter_init\<lparr>out := Some [Print (ULong 1), Print (Chr CHR '' ''),
        Print (Str ''INFO''), Print (Str '': ''), PrintlnVal (Str ''x'')],
        lineOpen := False, activeLevel := Info\<rparr>"
  have c1: "canWrite ?s1 Info" by (simp add: canWrite_def)
  have 3: "info ''x'' 2 ?s1 =
      Some (O3SerialWriter_init\<lparr>out := Some ([Print (ULong 1), Print (Chr CHR '' ''),
        Print (Str ''INFO''), Print (Str '': ''), PrintlnVal (Str ''x'')] @
        [Print (ULong 2), Print (Chr CHR '' ''),
        Print (Str ''INFO''), Print (Str '': ''), PrintlnVal (Str ''x'')]),
        lineOpen := False, activeLevel := Info\<rparr>)"
    using line_Some [of ?s1 _ Info "''x''" 2] c1
    by (simp add: info_def ensureCalls_def headerCalls_def levelText_def)
  show ?thesis
    using 1 2 3 n by (simp add: begin_default cstr_def lineBreak_def)
qed

text \<open>
  Claim C6, amended. On a writer just attached with \<open>begin\<close>, calling \<open>line\<close> with the
  same level and message writes the same bytes each time, on two such writers and twice
  in a row on one, provided the timestamp is not shown or \<open>millis()\<close> returns the same
  value at both calls.
\<close>

theorem line_twice:
  assumes "writer_inv s" and "\<not> opt_showMillis options \<or> now1 = now2"
  shows "let s0 = begin_stream st options s;
             l = (if canWrite s0 level
                  then line_format (cstr (prefixBuffer s0)) (showMillis s0) (showLevel s0)
                         now1 level (cstr m)
                  else [])
         in sink_text (line level m now1 s0) = Some (sink_bytes st @ l) \<and>
            sink_text (line level m now2 s0) = Some (sink_bytes st @ l) \<and>
            sink_text (line level m now1 s0 \<bind> line level m now2) = Some (sink_bytes st @ l @ l)"
proof -
  define s0 where "s0 = begin_stream st options s"
  have o: "out s0 = Some st" and l: "\<not> lineOpen s0"
    and sm: "showMillis s0 = opt_showMillis options"
    by (simp_all add: s0_def begin_stream_def)
  have "writer_inv (s\<lparr>out := Some st\<rparr>)" using assms(1) by (rule writer_inv_frame)
  then have "writer_inv s0" unfolding s0_def begin_stream_def by (rule writer_inv_configure)
  then have b: "buffers_ok s0" by (simp add: writer_inv_def)
  have f: "line_format (cstr (prefixBuffer s0)) (showMillis s0) (showLevel s0) now2 level (cstr m) =
      line_format (cstr (prefixBuffer s0)) (showMillis s0) (showLevel s0) now1 level (cstr m)"
    using assms(2) sm header_format_no_millis [of _ _ now1 level now2]
    by (auto simp: line_format_def)
  show ?thesis
  proof (cases "canWrite s0 level")
    case False
    then show ?thesis
      using o by (simp add: s0_def [symmetric] gated_exec)
  next
    case True
    let ?s1 = "s0\<lparr>out := Some (st @ headerCalls s0 level now1 @ [PrintlnVal (Str m)]),
                   lineOpen := False, activeLevel := defaultLevel s0\<rparr>"
    have 1: "line level m now1 s0 = Some ?s1"
      by (rule line_closed_bytes(1) [OF o b True l])
    have 2: "line level m now2 s0 =
        Some (s0\<lparr>out := Some (st @ headerCalls s0 level now2 @ [PrintlnVal (Str m)]),
                   lineOpen := False, activeLevel := defaultLevel s0\<rparr>)"
      by (rule line_closed_bytes(1) [OF o b True l])
    have b1: "buffers_ok ?s1" using b by (simp add: buffers_ok_def)
    have c1: "canWrite ?s1 level" using True o canWrite_cong [of ?s1 s0 level] by simp
    have 3: "line level m now2 ?s1 =
        Some (?s1\<lparr>out := Some ((st @ headerCalls s0 level now1 @ [PrintlnVal (Str m)]) @
                                 headerCalls ?s1 level now2 @ [PrintlnVal (Str m)]),
                   lineOpen := False, activeLevel := defaultLevel ?s1\<rparr>)"
      by (rule line_closed_bytes(1) [OF _ b1 c1]) simp_all
    have y1: "sink_bytes (st @ headerCalls s0 level now1 @ [PrintlnVal (Str m)]) =
        sink_bytes st @
        line_format (cstr (prefixBuffer s0)) (showMillis s0) (showLevel s0) now1 level (cstr m)"
      by (rule line_closed_bytes(2) [OF o b True l])
    have y2: "sink_bytes (st @ headerCalls s0 level now2 @ [PrintlnVal (Str m)]) =
        sink_bytes st @
        line_format (cstr (prefixBuffer s0)) (showMillis s0) (showLevel s0) now1 level (cstr m)"
      using line_closed_bytes(2) [OF o b True l, where m = m and now = now2] f by simp
    have y3: "sink_bytes ((st @ headerCalls s0 level now1 @ [PrintlnVal (Str m)]) @
                                 headerCalls ?s1 level now2 @ [PrintlnVal (Str m)]) =
        sink_bytes st @
        line_format (cstr (prefixBuffer s0)) (showMillis s0) (showLevel s0) now1 level (cstr m) @
        line_format (cstr (prefixBuffer s0)) (showMillis s0) (showLevel s0) now1 level (cstr m)"
      using line_closed_bytes(2) [OF _ b1 c1,
          where tr = "st @ headerCalls s0 level now1 @ [PrintlnVal (Str m)]" and m = m and now = now2]
        y1 f
      by simp
    show ?thesis
      unfolding s0_def [symmetric] Let_def
      using True 1 2 3 y1 y2 y3 by simp
  qed
qed


theorem line_twice_witness:
  "writer_inv O3SerialWriter_init \<and>
   \<not> opt_showMillis (O3SerialWriterOptions_init\<lparr>opt_showMillis := False\<rparr>) \<and>
   sink_text (line Info ''x'' 1
     (begin_stream [] (O3SerialWriterOptions_init\<lparr>opt_showMillis := False\<rparr>) O3SerialWriter_init)) =
     Some (''INFO: x'' @ lineBreak) \<and>
   sink_text (line Info ''x'' 2
     (begin_stream [] (O3SerialWriterOptions_init\<lparr>opt_showMillis := False\<rparr>) O3SerialWriter_init)) =
     Some (''INFO: x'' @ lineBreak) \<and>
   sink_text (line Info ''x'' 1
     (begin_stream [] (O3SerialWriterOptions_init\<lparr>opt_showMillis := False\<rparr>) O3SerialWriter_init) \<bind>
     line Info ''x'' 2) =
     Some ((''INFO: x'' @ lineBreak) @ (''INFO: x'' @ lineBreak))"
proof -
  let ?o = "O3SerialWriterOptions_init\<lparr>opt_showMillis := False\<rparr>"
  let ?s0 = "begin_stream [] ?o O3SerialWriter_init"
  have h: "\<not> opt_showMillis ?o \<or> (1 :: 32 word) = 2" by simp
  have c: "canWrite ?s0 Info"
    by (simp add: canWrite_def begin_stream_def O3SerialWriterOptions_init_def)
  have p: "cstr (prefixBuffer ?s0) = []"
    using copyPrefix_stored [of "O3SerialWriter_init\<lparr>out := Some []\<rparr>" "Some []"]
    by (simp add: begin_stream_def prefixMaxLen_def O3SerialWriterOptions_init_def)
  have f: "showLevel ?s0" "\<not> showMillis ?s0"
    by (simp_all add: begin_stream_def O3SerialWriterOptions_init_def)
  from line_twice [OF writer_inv_init h, of "[]" Info "''x''"] c p f writer_inv_init
  show ?thesis
    by (simp add: Let_def line_format_def header_format_def levelText_def cstr_def)
qed

section \<open>Resetting an open line\<close>

lemma run_disable_enable:
  assumes "level = Info \<or> level = Warn"
  shows "run [(Begin [] O3SerialWriterOptions_init, 0), (PrintWithLevel Info (Str ''a''), 1),
              (SetEnabled False, 1), (SetEnabled True, 1),
              (PrintlnWithLevel level (Str ''b''), 2)] O3SerialWriter_init =
         Some (O3SerialWriter_init\<lparr>out := Some [Print (ULong 1), Print (Chr CHR '' ''),
           Print (Str ''INFO''), Print (Str '': ''), Print (Str ''a''),
           Print (ULong 2), Print (Chr CHR '' ''), Print (Str (levelText level)),
           Print (Str '': ''), PrintlnVal (Str ''b'')],
           lineOpen := False, activeLevel := Info\<rparr>)"
proof -
  let ?a = "O3SerialWriter_init\<lparr>out := Some []\<rparr>"
  let ?tr = "[Print (ULong 1), Print (Chr CHR '' ''), Print (Str ''INFO''), Print (Str '': ''),
             Print (Str ''a'')]"
  let ?s1 = "O3SerialWriter_init\<lparr>out := Some ?tr, lineOpen := True, activeLevel := Info\<rparr>"
  let ?s3 = "O3SerialWriter_init\<lparr>out := Some ?tr, lineOpen := False, activeLevel := Info\<rparr>"
  have c: "canWrite ?a Info" "canWrite ?s3 level"
    using assms by (auto simp: canWrite_def)
  have 1: "printWithLevel Info (Str ''a'') 1 ?a = Some ?s1"
    using printWithLevel_Some [of ?a "[]" Info "Str ''a''" 1] c(1)
    by (simp add: ensureCalls_def headerCalls_def levelText_def)
  have 2: "setEnabled True (setEnabled False ?s1) = ?s3"
    by (simp add: setEnabled_def resetLineState_def O3SerialWriter_init_def)
  have 3: "printlnWithLevel level (Str ''b'') 2 ?s3 =
      Some (O3SerialWriter_init\<lparr>out := Some (?tr @ [Print (ULong 2), Print (Chr CHR '' ''),
           Print (Str (levelText level)), Print (Str '': ''), PrintlnVal (Str ''b'')]),
           lineOpen := False, activeLevel := Info\<rparr>)"
    using printlnWithLevel_Some [of ?s3 ?tr level "Str ''b''" 2] c(2)
    by (simp add: ensureCalls_def headerCalls_def)
  show ?thesis using 1 2 3 by (simp add: begin_default)
qed

text \<open>
  Claim C2, as stated, fails in its conclusion: \<open>setEnabled(false)\<close> resets the state
  of an open line and writes no line break, so after \<open>setEnabled(true)\<close> the next
  call finds no line open and writes its header, of another severity, onto the line the
  sink is holding.
\<close>

theorem ensureLineHeader_cases_counterexample:
  "map_option out
     (run [(Begin [] O3SerialWriterOptions_init, 0), (PrintWithLevel Info (Str ''a''), 1),
           (SetEnabled False, 1), (SetEnabled True, 1),
           (PrintlnWithLevel Warn (Str ''b''), 2)] O3SerialWriter_init) =
     Some (Some [Print (ULong 1), Print (Chr CHR '' ''), Print (Str ''INFO''), Print (Str '': ''),
                 Print (Str ''a''),
                 Print (ULong 2), Print (Chr CHR '' ''), Print (Str ''WARN''), Print (Str '': ''),
                 PrintlnVal (Str ''b'')]) \<and>
   sink_text
     (run [(Begin [] O3SerialWriterOptions_init, 0), (PrintWithLevel Info (Str ''a''), 1),
           (SetEnabled False, 1), (SetEnabled True, 1),
           (PrintlnWithLevel Warn (Str ''b''), 2)] O3SerialWriter_init) =
     Some (''1 INFO: a2 WARN: b'' @ lineBreak)"
proof -
  have n: "printNumber 1 [] = ''1''" "printNumber 2 [] = ''2''"
    by (simp_all add: printNumber.simps digit_char_def)
  show ?thesis
    using run_disable_enable [of Warn] n
    by (simp add: levelText_def cstr_def lineBreak_def)
qed

section \<open>The header of an open line\<close>

lemma run_append:
  "run (cs @ ds) s = (case run cs s of None \<Rightarrow> None | Some a \<Rightarrow> run ds a)"
  by (induction cs arbitrary: s) (auto split: option.split)

lemma run_inv: "writer_inv s \<Longrightarrow> \<exists>s'. run cs s = Some s' \<and> writer_inv s'"
proof (induction cs arbitrary: s)
  case Nil
  then show ?case by simp
next
  case (Cons a cs)
  obtain c now where a: "a = (c, now)" by (cases a)
  from exec_total [OF Cons.prems, of c now]
  obtain s1 where "exec c now s = Some s1" "writer_inv s1" by blast
  then show ?case using Cons.IH [of s1] a by simp
qed

lemma printWithLevel_cases:
  assumes "writer_inv s" "printWithLevel level v now s = Some s'" "lineOpen s'"
  shows "(level = activeLevel s' \<and> (lineOpen s \<longrightarrow> activeLevel s \<noteq> activeLevel s') \<and>
          (\<exists>tr. out s = Some tr \<and>
             out s' = Some (tr @ (if lineOpen s then [Println] else []) @
                            headerCalls s level now @ [Print v])))
       \<or> (lineOpen s \<and> activeLevel s' = activeLevel s \<and>
          (\<exists>body. (body = [] \<or> body = [Print v] \<and> level = activeLevel s) \<and>
             (\<forall>tr. out s = Some tr \<longrightarrow> out s' = Some (tr @ body))))"
proof (cases "canWrite s level")
  case False
  then have "s' = s" using assms(2) by (simp add: gated_exec)
  then have "lineOpen s \<and> activeLevel s' = activeLevel s \<and>
      (\<forall>tr. out s = Some tr \<longrightarrow> out s' = Some (tr @ []))"
    using assms(3) by simp
  then show ?thesis by blast
next
  case True
  then obtain tr where o: "out s = Some tr" using canWrite_out by blast
  have b: "NUL \<in> set (prefixBuffer s)" using assms(1) by (simp add: writer_inv_def buffers_ok_def)
  have s': "s' = s\<lparr>out := Some (tr @ ensureCalls s level now @ [Print v]),
                   lineOpen := True, activeLevel := level\<rparr>"
    using printWithLevel_Some [OF o b True, of v now] assms(2) by simp
  show ?thesis
  proof (cases "lineOpen s \<and> level = activeLevel s")
    case True
    then have "lineOpen s \<and> activeLevel s' = activeLevel s \<and> level = activeLevel s \<and>
      (\<forall>tr. out s = Some tr \<longrightarrow> out s' = Some (tr @ [Print v]))"
      using s' o by (simp add: ensureCalls_def)
    then show ?thesis by blast
  next
    case False
    then have "level = activeLevel s' \<and> (lineOpen s \<longrightarrow> activeLevel s \<noteq> activeLevel s') \<and>
        out s = Some tr \<and>
        out s' = Some (tr @ (if lineOpen s then [Println] else []) @
                       headerCalls s level now @ [Print v])"
      using s' o by (auto simp: ensureCalls_def)
    then show ?thesis by blast
  qed
qed

lemma exec_open_cases:
  assumes "writer_inv s" "exec c now s = Some s'" "lineOpen s'"
  shows "(\<exists>v tr. (c = PrintWithLevel (activeLevel s') v \<or> c = CallPrint v \<and> activeLevel s' = Info) \<and>
            (lineOpen s \<longrightarrow> activeLevel s \<noteq> activeLevel s') \<and> out s = Some tr \<and>
            out s' = Some (tr @ (if lineOpen s then [Println] else []) @
                           headerCalls s (activeLevel s') now @ [Print v]))
       \<or> (lineOpen s \<and> activeLevel s' = activeLevel s \<and>
          (\<exists>body. (body = [] \<or>
                    (\<exists>v. (c = PrintWithLevel (activeLevel s) v \<or> c = CallPrint v) \<and>
                         body = [Print v])) \<and>
             (\<forall>tr. out s = Some tr \<longrightarrow> out s' = Some (tr @ body))))"
proof (cases "resets c s")
  case True
  then show ?thesis using resets_exec [OF assms(1) True assms(2)] assms(3) by simp
next
  case False
  have d: "defaultLevel s = Info" using assms(1) by (simp add: writer_inv_def)
  show ?thesis
  proof (cases "(\<exists>l v. c = PrintWithLevel l v) \<or> (\<exists>v. c = CallPrint v)")
    case True
    then obtain l v where c: "c = PrintWithLevel l v \<or> c = CallPrint v \<and> l = Info" by blast
    then have p: "printWithLevel l v now s = Some s'"
      using assms(2) d by (auto simp: print_def)
    from printWithLevel_cases [OF assms(1) p assms(3)] c show ?thesis by blast
  next
    case other: False
    have "lineOpen s' = lineOpen s \<and> activeLevel s' = activeLevel s \<and> out s' = out s"
      using False other assms(2)
      by (cases c)
         (auto simp: setPrefix_def setMinLevel_def setPartSeparator_def setEnabled_def
           println_def debug_def info_def warn_def error_def
           debug_parts_def info_parts_def warn_parts_def error_parts_def gated_exec)
    then have "lineOpen s \<and> activeLevel s' = activeLevel s \<and>
        (\<forall>tr. out s = Some tr \<longrightarrow> out s' = Some (tr @ []))"
      using assms(3) by simp
    then show ?thesis by blast
  qed
qed

lemma header_written_run:
  "run cs O3SerialWriter_init = Some s \<Longrightarrow> lineOpen s \<Longrightarrow> header_written cs s"
proof (induction cs arbitrary: s rule: rev_induct)
  case Nil
  then show ?case by simp
next
  case (snoc a cs)
  obtain c now where a: "a = (c, now)" by (cases a)
  from run_inv [OF writer_inv_init, of cs]
  obtain s1 where s1: "run cs O3SerialWriter_init = Some s1" "writer_inv s1" by blast
  then have e: "exec c now s1 = Some s"
    using snoc.prems(1) a by (simp add: run_append split: option.splits)
  from exec_open_cases [OF s1(2) e snoc.prems(2)]
  show ?case
  proof
    assume "\<exists>v tr. (c = PrintWithLevel (activeLevel s) v \<or> c = CallPrint v \<and> activeLevel s = Info) \<and>
            (lineOpen s1 \<longrightarrow> activeLevel s1 \<noteq> activeLevel s) \<and> out s1 = Some tr \<and>
            out s = Some (tr @ (if lineOpen s1 then [Println] else []) @
                           headerCalls s1 (activeLevel s) now @ [Print v])"
    then obtain v tr where o:
      "c = PrintWithLevel (activeLevel s) v \<or> c = CallPrint v \<and> activeLevel s = Info"
      "lineOpen s1 \<longrightarrow> activeLevel s1 \<noteq> activeLevel s" "out s1 = Some tr"
      "out s = Some (tr @ (if lineOpen s1 then [Println] else []) @
                           headerCalls s1 (activeLevel s) now @ Print v # [])"
      by auto
    show ?thesis
      unfolding header_written_def
    proof (intro exI conjI)
      show "cs @ [a] = cs @ (c, now) # []" using a by simp
      show "run cs O3SerialWriter_init = Some s1" by (rule s1(1))
      show "out s1 = Some tr" by (rule o(3))
      show "c = PrintWithLevel (activeLevel s) v \<or> c = CallPrint v \<and> activeLevel s = Info"
        by (rule o(1))
      show "lineOpen s1 \<longrightarrow> activeLevel s1 \<noteq> activeLevel s" by (rule o(2))
      show "out s = Some (tr @ (if lineOpen s1 then [Println] else []) @
                           headerCalls s1 (activeLevel s) now @ Print v # [])" by (rule o(4))
      show "\<forall>e\<in>set []. \<not> is_break e \<and>
           (\<exists>c' t' v'. (c', t') \<in> set [] \<and>
              (c' = PrintWithLevel (activeLevel s) v' \<or> c' = CallPrint v') \<and> e = Print v')"
        by simp
    qed
  next
    assume "lineOpen s1 \<and> activeLevel s = activeLevel s1 \<and>
          (\<exists>body. (body = [] \<or>
                    (\<exists>v. (c = PrintWithLevel (activeLevel s1) v \<or> c = CallPrint v) \<and>
                         body = [Print v])) \<and>
             (\<forall>tr. out s1 = Some tr \<longrightarrow> out s = Some (tr @ body)))"
    then obtain body where k: "lineOpen s1" "activeLevel s = activeLevel s1"
      "body = [] \<or> (\<exists>v. (c = PrintWithLevel (activeLevel s1) v \<or> c = CallPrint v) \<and>
                         body = [Print v])"
      "\<forall>tr. out s1 = Some tr \<longrightarrow> out s = Some (tr @ body)"
      by blast
    from snoc.IH [OF s1(1) k(1)]
    obtain cs1 c0 now0 cs2 s0 tr0 v body0 where h:
      "cs = cs1 @ (c0, now0) # cs2" "run cs1 O3SerialWriter_init = Some s0" "out s0 = Some tr0"
      "c0 = PrintWithLevel (activeLevel s1) v \<or> c0 = CallPrint v \<and> activeLevel s1 = Info"
      "lineOpen s0 \<longrightarrow> activeLevel s0 \<noteq> activeLevel s1"
      "out s1 = Some (tr0 @ (if lineOpen s0 then [Println] else []) @
                      headerCalls s0 (activeLevel s1) now0 @ Print v # body0)"
      "\<forall>e \<in> set body0. \<not> is_break e \<and>
           (\<exists>c' t' v'. (c', t') \<in> set cs2 \<and>
              (c' = PrintWithLevel (activeLevel s1) v' \<or> c' = CallPrint v') \<and> e = Print v')"
      unfolding header_written_def by blast
    have 1: "cs @ [a] = cs1 @ (c0, now0) # (cs2 @ [a])" using h(1) by simp
    have 2: "out s = Some (tr0 @ (if lineOpen s0 then [Println] else []) @
                      headerCalls s0 (activeLevel s) now0 @ Print v # (body0 @ body))"
      using k(4) h(6) k(2) by simp
    have 3: "\<forall>e \<in> set (body0 @ body). \<not> is_break e \<and>
           (\<exists>c' t' v'. (c', t') \<in> set (cs2 @ [a]) \<and>
              (c' = PrintWithLevel (activeLevel s) v' \<or> c' = CallPrint v') \<and> e = Print v')"
    proof
      fix e assume "e \<in> set (body0 @ body)"
      then consider "e \<in> set body0" | "e \<in> set body" by auto
      then show "\<not> is_break e \<and>
           (\<exists>c' t' v'. (c', t') \<in> set (cs2 @ [a]) \<and>
              (c' = PrintWithLevel (activeLevel s) v' \<or> c' = CallPrint v') \<and> e = Print v')"
      proof cases
        case 1
        then obtain c' t' v' where "\<not> is_break e" "(c', t') \<in> set cs2"
          "c' = PrintWithLevel (activeLevel s1) v' \<or> c' = CallPrint v'" "e = Print v'"
          using h(7) by blast
        then show ?thesis using k(2) by auto
      next
        case 2
        then obtain v' where "c = PrintWithLevel (activeLevel s1) v' \<or> c = CallPrint v'"
          "e = Print v'" using k(3) by auto
        then show ?thesis using a k(2) by auto
      qed
    qed
    have 4: "c0 = PrintWithLevel (activeLevel s) v \<or> c0 = CallPrint v \<and> activeLevel s = Info"
      using h(4) k(2) by simp
    have 5: "lineOpen s0 \<longrightarrow> activeLevel s0 \<noteq> activeLevel s" using h(5) k(2) by simp
    show ?thesis
      unfolding header_written_def
    proof (intro exI conjI)
      show "cs @ [a] = cs1 @ (c0, now0) # (cs2 @ [a])" by (rule 1)
      show "run cs1 O3SerialWriter_init = Some s0" by (rule h(2))
      show "out s0 = Some tr0" by (rule h(3))
      show "c0 = PrintWithLevel (activeLevel s) v \<or> c0 = CallPrint v \<and> activeLevel s = Info"
        by (rule 4)
      show "lineOpen s0 \<longrightarrow> activeLevel s0 \<noteq> activeLevel s" by (rule 5)
      show "out s = Some (tr0 @ (if lineOpen s0 then [Println] else []) @
                      headerCalls s0 (activeLevel s) now0 @ Print v # (body0 @ body))" by (rule 2)
      show "\<forall>e \<in> set (body0 @ body). \<not> is_break e \<and>
           (\<exists>c' t' v'. (c', t') \<in> set (cs2 @ [a]) \<and>
              (c' = PrintWithLevel (activeLevel s) v' \<or> c' = CallPrint v') \<and> e = Print v')"
        by (rule 3)
    qed
  qed
qed

section \<open>One header for each line\<close>

lemma writes_open:
  assumes "out s = Some tr" "NUL \<in> set (prefixBuffer s)" "canWrite s L" "lineOpen s"
    "activeLevel s = L"
  shows "run (map (\<lambda>(x, t). (PrintWithLevel L x, t)) vs) s =
         Some (s\<lparr>out := Some (tr @ map (\<lambda>(x, t). Print x) vs)\<rparr>)"
  using assms
proof (induction vs arbitrary: s tr)
  case Nil
  then show ?case by simp
next
  case (Cons a vs)
  obtain x t where a: "a = (x, t)" by (cases a)
  let ?s1 = "s\<lparr>out := Some (tr @ [Print x])\<rparr>"
  have "s\<lparr>out := Some (tr @ [Print x]), lineOpen := True, activeLevel := L\<rparr> = ?s1"
    using Cons.prems(4,5) by simp
  then have 1: "printWithLevel L x t s = Some ?s1"
    using printWithLevel_Some [OF Cons.prems(1,2,3), of x t] Cons.prems(4,5)
    by (simp add: ensureCalls_def)
  have c: "canWrite ?s1 L" using Cons.prems(1,3) canWrite_cong [of ?s1 s L] by simp
  have "run (map (\<lambda>(x, t). (PrintWithLevel L x, t)) vs) ?s1 =
      Some (?s1\<lparr>out := Some ((tr @ [Print x]) @ map (\<lambda>(x, t). Print x) vs)\<rparr>)"
    using Cons.prems c by (intro Cons.IH) simp_all
  then show ?case using 1 a by simp
qed

lemma one_header:
  assumes "out s = Some tr" "buffers_ok s" "canWrite s L" "\<not> lineOpen s"
  shows "run (map (\<lambda>(x, t). (PrintWithLevel L x, t)) vs @ [(PrintlnWithLevel L v, now)]) s =
         Some (s\<lparr>out := Some (tr @ headerCalls s L (case vs of [] \<Rightarrow> now | (x, t) # r \<Rightarrow> t) @
                               map (\<lambda>(x, t). Print x) vs @ [PrintlnVal v]),
                 lineOpen := False, activeLevel := defaultLevel s\<rparr>)"
proof -
  have b: "NUL \<in> set (prefixBuffer s)" using assms(2) by (simp add: buffers_ok_def)
  show ?thesis
  proof (cases vs)
    case Nil
    then show ?thesis
      using printlnWithLevel_Some [OF assms(1) b assms(3), of v now] assms(4)
      by (simp add: ensureCalls_def)
  next
    case (Cons a r)
    obtain x t where a: "a = (x, t)" by (cases a)
    let ?s1 = "s\<lparr>out := Some (tr @ headerCalls s L t @ [Print x]), lineOpen := True,
                  activeLevel := L\<rparr>"
    have 1: "printWithLevel L x t s = Some ?s1"
      using printWithLevel_Some [OF assms(1) b assms(3), of x t] assms(4)
      by (simp add: ensureCalls_def)
    have c1: "canWrite ?s1 L" using assms(1,3) canWrite_cong [of ?s1 s L] by simp
    let ?s2 = "?s1\<lparr>out := Some ((tr @ headerCalls s L t @ [Print x]) @ map (\<lambda>(x, t). Print x) r)\<rparr>"
    have 2: "run (map (\<lambda>(x, t). (PrintWithLevel L x, t)) r) ?s1 = Some ?s2"
      using b c1 by (intro writes_open) simp_all
    have c2: "canWrite ?s2 L" using assms(1,3) canWrite_cong [of ?s2 s L] by simp
    have 3: "printlnWithLevel L v now ?s2 =
        Some (?s2\<lparr>out := Some (((tr @ headerCalls s L t @ [Print x]) @ map (\<lambda>(x, t). Print x) r) @
                           ensureCalls ?s2 L now @ [PrintlnVal v]),
                 lineOpen := False, activeLevel := defaultLevel ?s2\<rparr>)"
      using b c2 by (intro printlnWithLevel_Some) simp_all
    show ?thesis
      using 1 2 3 Cons a by (simp add: run_append ensureCalls_def)
  qed
qed

lemma terminate_open:
  assumes "out s = Some tr" "buffers_ok s" "lineOpen s" "canWrite s (activeLevel s)"
  shows "printlnWithLevel (activeLevel s) w now s =
           Some (s\<lparr>out := Some (tr @ [PrintlnVal w]),
                   lineOpen := False, activeLevel := defaultLevel s\<rparr>)"
    and "line (activeLevel s) m now s =
           Some (s\<lparr>out := Some (tr @ [PrintlnVal (Str m)]),
                   lineOpen := False, activeLevel := defaultLevel s\<rparr>)"
    and "parts (activeLevel s) first rest now s =
           Some (s\<lparr>out := Some (tr @ Print first #
                     concat (map (\<lambda>r. [Print (Str (cstr (partSeparatorBuffer s))), Print r]) rest) @
                     [Println]),
                   lineOpen := False, activeLevel := defaultLevel s\<rparr>)"
proof -
  have b: "NUL \<in> set (prefixBuffer s)" "NUL \<in> set (partSeparatorBuffer s)"
    using assms(2) by (simp_all add: buffers_ok_def)
  have e: "ensureCalls s (activeLevel s) now = []" using assms(3) by (simp add: ensureCalls_def)
  show "printlnWithLevel (activeLevel s) w now s =
           Some (s\<lparr>out := Some (tr @ [PrintlnVal w]),
                   lineOpen := False, activeLevel := defaultLevel s\<rparr>)"
    using printlnWithLevel_Some [OF assms(1) b(1) assms(4), of w now] e by simp
  show "line (activeLevel s) m now s =
           Some (s\<lparr>out := Some (tr @ [PrintlnVal (Str m)]),
                   lineOpen := False, activeLevel := defaultLevel s\<rparr>)"
    using line_Some [OF assms(1) b(1) assms(4), of m now] e by simp
  show "parts (activeLevel s) first rest now s =
           Some (s\<lparr>out := Some (tr @ Print first #
                     concat (map (\<lambda>r. [Print (Str (cstr (partSeparatorBuffer s))), Print r]) rest) @
                     [Println]),
                   lineOpen := False, activeLevel := defaultLevel s\<rparr>)"
    using parts_Some [OF assms(1) b assms(4), of first rest now] e
    by (simp add: partsCalls_def)
qed

text \<open>
  Claim C1, as stated, fails twice. \<open>setEnabled(false)\<close> resets the state of an open
  line and writes no line break, so the next write puts a second header on the line the
  sink is holding; and a printed value is passed on as it is, so one that contains a line
  break puts it on the open line while \<open>lineOpen\<close> stays true.
\<close>

theorem header_once_per_line_counterexample:
  "sink_text (run [(Begin [] O3SerialWriterOptions_init, 0), (PrintWithLevel Info (Str ''a''), 1),
                   (SetEnabled False, 1), (SetEnabled True, 1),
                   (PrintlnWithLevel Info (Str ''b''), 2)] O3SerialWriter_init) =
     Some (''1 INFO: a2 INFO: b'' @ lineBreak) \<and>
   map_option lineOpen
     (run [(Begin [] O3SerialWriterOptions_init, 0),
           (PrintWithLevel Info (Str (''a'' @ lineBreak @ ''b'')), 1)] O3SerialWriter_init) =
     Some True \<and>
   sink_text
     (run [(Begin [] O3SerialWriterOptions_init, 0),
           (PrintWithLevel Info (Str (''a'' @ lineBreak @ ''b'')), 1)] O3SerialWriter_init) =
     Some (''1 INFO: a'' @ lineBreak @ ''b'')"
proof -
  let ?a = "O3SerialWriter_init\<lparr>out := Some []\<rparr>"
  have n: "printNumber 1 [] = ''1''" "printNumber 2 [] = ''2''"
    by (simp_all add: printNumber.simps digit_char_def)
  have c: "canWrite ?a Info" by (simp add: canWrite_def)
  have 1: "printWithLevel Info (Str (''a'' @ lineBreak @ ''b'')) 1 ?a =
      Some (O3SerialWriter_init\<lparr>out := Some [Print (ULong 1), Print (Chr CHR '' ''),
        Print (Str ''INFO''), Print (Str '': ''), Print (Str (''a'' @ lineBreak @ ''b''))],
        lineOpen := True, activeLevel := Info\<rparr>)"
    using printWithLevel_Some [of ?a "[]" Info "Str (''a'' @ lineBreak @ ''b'')" 1] c
    by (simp add: ensureCalls_def headerCalls_def levelText_def)
  show ?thesis
    using run_disable_enable [of Info] 1 n
    by (simp add: begin_default levelText_def cstr_def lineBreak_def)
qed

text \<open>
  Claim C1, amended. After any sequence of calls on a new object, if \<open>lineOpen\<close> holds
  then one of the calls was a \<open>printWithLevel\<close> (or \<open>print\<close>) at the current
  \<open>activeLevel\<close> that found no line open at that level, and the attached sink holds
  what it held before that call, a line break if a line of another level was open, the
  header of \<open>activeLevel\<close> as configured at that call, the value of that call, and
  since then only values of later print calls at that level, sent as they are and with
  no line-break call among them. A call that ends an open line at its level adds its
  payload and the line break only. So from the call that opens a line to the call that
  ends it exactly one header is sent, however many \<open>printWithLevel\<close> calls at that
  level come in between. What the sink held before the opening call is not constrained:
  it can end in an unfinished line.
\<close>

theorem header_once_per_line:
  "(run cs O3SerialWriter_init = Some s \<and> lineOpen s \<longrightarrow>
      (\<exists>cs1 c now cs2 s1 tr1 v body.
         cs = cs1 @ (c, now) # cs2 \<and> run cs1 O3SerialWriter_init = Some s1 \<and>
         out s1 = Some tr1 \<and>
         (c = PrintWithLevel (activeLevel s) v \<or> c = CallPrint v \<and> activeLevel s = Info) \<and>
         (lineOpen s1 \<longrightarrow> activeLevel s1 \<noteq> activeLevel s) \<and>
         out s = Some (tr1 @ (if lineOpen s1 then [Println] else []) @
                       headerCalls s1 (activeLevel s) now @ Print v # body) \<and>
         (\<forall>e \<in> set body. \<not> is_break e \<and>
            (\<exists>c' t' v'. (c', t') \<in> set cs2 \<and>
               (c' = PrintWithLevel (activeLevel s) v' \<or> c' = CallPrint v') \<and> e = Print v')))) \<and>
   (out b = Some trb \<and> buffers_ok b \<and> lineOpen b \<and> canWrite b (activeLevel b) \<longrightarrow>
      printlnWithLevel (activeLevel b) w t' b =
        Some (b\<lparr>out := Some (trb @ [PrintlnVal w]),
                lineOpen := False, activeLevel := defaultLevel b\<rparr>) \<and>
      line (activeLevel b) m t' b =
        Some (b\<lparr>out := Some (trb @ [PrintlnVal (Str m)]),
                lineOpen := False, activeLevel := defaultLevel b\<rparr>) \<and>
      parts (activeLevel b) first rest t' b =
        Some (b\<lparr>out := Some (trb @ Print first #
                  concat (map (\<lambda>r. [Print (Str (cstr (partSeparatorBuffer b))), Print r]) rest) @
                  [Println]),
                lineOpen := False, activeLevel := defaultLevel b\<rparr>)) \<and>
   (out a = Some tr \<and> buffers_ok a \<and> canWrite a L \<and> \<not> lineOpen a \<longrightarrow>
      run (map (\<lambda>(x, t). (PrintWithLevel L x, t)) vs @ [(PrintlnWithLevel L w, t')]) a =
        Some (a\<lparr>out := Some (tr @ headerCalls a L (case vs of [] \<Rightarrow> t' | (x, t) # r \<Rightarrow> t) @
                              map (\<lambda>(x, t). Print x) vs @ [PrintlnVal w]),
                lineOpen := False, activeLevel := defaultLevel a\<rparr>))"
proof (intro conjI impI)
  assume "run cs O3SerialWriter_init = Some s \<and> lineOpen s"
  then have "header_written cs s" using header_written_run by blast
  then show "\<exists>cs1 c now cs2 s1 tr1 v body.
         cs = cs1 @ (c, now) # cs2 \<and> run cs1 O3SerialWriter_init = Some s1 \<and>
         out s1 = Some tr1 \<and>
         (c = PrintWithLevel (activeLevel s) v \<or> c = CallPrint v \<and> activeLevel s = Info) \<and>
         (lineOpen s1 \<longrightarrow> activeLevel s1 \<noteq> activeLevel s) \<and>
         out s = Some (tr1 @ (if lineOpen s1 then [Println] else []) @
                       headerCalls s1 (activeLevel s) now @ Print v # body) \<and>
         (\<forall>e \<in> set body. \<not> is_break e \<and>
            (\<exists>c' t' v'. (c', t') \<in> set cs2 \<and>
               (c' = PrintWithLevel (activeLevel s) v' \<or> c' = CallPrint v') \<and> e = Print v'))"
    unfolding header_written_def .
next
  assume h: "out b = Some trb \<and> buffers_ok b \<and> lineOpen b \<and> canWrite b (activeLevel b)"
  then show "printlnWithLevel (activeLevel b) w t' b =
        Some (b\<lparr>out := Some (trb @ [PrintlnVal w]),
                lineOpen := False, activeLevel := defaultLevel b\<rparr>)"
    using terminate_open(1) by blast
  from h show "line (activeLevel b) m t' b =
        Some (b\<lparr>out := Some (trb @ [PrintlnVal (Str m)]),
                lineOpen := False, activeLevel := defaultLevel b\<rparr>)"
    using terminate_open(2) by blast
  from h show "parts (activeLevel b) first rest t' b =
        Some (b\<lparr>out := Some (trb @ Print first #
                  concat (map (\<lambda>r. [Print (Str (cstr (partSeparatorBuffer b))), Print r]) rest) @
                  [Println]),
                lineOpen := False, activeLevel := defaultLevel b\<rparr>)"
    using terminate_open(3) by blast
next
  assume "out a = Some tr \<and> buffers_ok a \<and> canWrite a L \<and> \<not> lineOpen a"
  then show "run (map (\<lambda>(x, t). (PrintWithLevel L x, t)) vs @ [(PrintlnWithLevel L w, t')]) a =
        Some (a\<lparr>out := Some (tr @ headerCalls a L (case vs of [] \<Rightarrow> t' | (x, t) # r \<Rightarrow> t) @
                              map (\<lambda>(x, t). Print x) vs @ [PrintlnVal w]),
                lineOpen := False, activeLevel := defaultLevel a\<rparr>)"
    using one_header by blast
qed

theorem header_once_per_line_witness:
  "run [(Begin [] O3SerialWriterOptions_init, 0), (PrintWithLevel Warn (Str ''a''), 5),
        (PrintWithLevel Warn (Str ''b''), 6)] O3SerialWriter_init =
     Some (O3SerialWriter_init\<lparr>out := Some [Print (ULong 5), Print (Chr CHR '' ''),
       Print (Str ''WARN''), Print (Str '': ''), Print (Str ''a''), Print (Str ''b'')],
       lineOpen := True, activeLevel := Warn\<rparr>) \<and>
   lineOpen (O3SerialWriter_init\<lparr>out := Some [Print (ULong 5), Print (Chr CHR '' ''),
       Print (Str ''WARN''), Print (Str '': ''), Print (Str ''a''), Print (Str ''b'')],
       lineOpen := True, activeLevel := Warn\<rparr>) \<and>
   (\<exists>cs1 c now cs2 s1 tr1 v body.
      [(Begin [] O3SerialWriterOptions_init, 0), (PrintWithLevel Warn (Str ''a''), 5),
       (PrintWithLevel Warn (Str ''b''), 6)] = cs1 @ (c, now) # cs2 \<and>
      run cs1 O3SerialWriter_init = Some s1 \<and> out s1 = Some tr1 \<and>
      (c = PrintWithLevel Warn v \<or> c = CallPrint v \<and> Warn = Info) \<and>
      (lineOpen s1 \<longrightarrow> activeLevel s1 \<noteq> Warn) \<and>
      Some [Print (ULong 5), Print (Chr CHR '' ''),
        Print (Str ''WARN''), Print (Str '': ''), Print (Str ''a''), Print (Str ''b'')] =
        Some (tr1 @ (if lineOpen s1 then [Println] else []) @
              headerCalls s1 Warn now @ Print v # body) \<and>
      (\<forall>e \<in> set body. \<not> is_break e \<and>
         (\<exists>c' t' v'. (c', t') \<in> set cs2 \<and>
            (c' = PrintWithLevel Warn v' \<or> c' = CallPrint v') \<and> e = Print v'))) \<and>
   canWrite (O3SerialWriter_init\<lparr>out := Some [Print (ULong 5), Print (Chr CHR '' ''),
       Print (Str ''WARN''), Print (Str '': ''), Print (Str ''a''), Print (Str ''b'')],
       lineOpen := True, activeLevel := Warn\<rparr>) Warn \<and>
   buffers_ok (O3SerialWriter_init\<lparr>out := Some [Print (ULong 5), Print (Chr CHR '' ''),
       Print (Str ''WARN''), Print (Str '': ''), Print (Str ''a''), Print (Str ''b'')],
       lineOpen := True, activeLevel := Warn\<rparr>) \<and>
   printlnWithLevel Warn (Str ''c'') 7
     (O3SerialWriter_init\<lparr>out := Some [Print (ULong 5), Print (Chr CHR '' ''),
       Print (Str ''WARN''), Print (Str '': ''), Print (Str ''a''), Print (Str ''b'')],
       lineOpen := True, activeLevel := Warn\<rparr>) =
     Some (O3SerialWriter_init\<lparr>out := Some [Print (ULong 5), Print (Chr CHR '' ''),
       Print (Str ''WARN''), Print (Str '': ''), Print (Str ''a''), Print (Str ''b''),
       PrintlnVal (Str ''c'')], lineOpen := False, activeLevel := Info\<rparr>) \<and>
   out (O3SerialWriter_init\<lparr>out := Some []\<rparr>) = Some [] \<and>
   buffers_ok (O3SerialWriter_init\<lparr>out := Some []\<rparr>) \<and>
   canWrite (O3SerialWriter_init\<lparr>out := Some []\<rparr>) Warn \<and>
   \<not> lineOpen (O3SerialWriter_init\<lparr>out := Some []\<rparr>) \<and>
   run [(PrintWithLevel Warn (Str ''a''), 5), (PrintWithLevel Warn (Str ''b''), 6),
        (PrintlnWithLevel Warn (Str ''c''), 7)] (O3SerialWriter_init\<lparr>out := Some []\<rparr>) =
     Some (O3SerialWriter_init\<lparr>out := Some [Print (ULong 5), Print (Chr CHR '' ''),
       Print (Str ''WARN''), Print (Str '': ''), Print (Str ''a''), Print (Str ''b''),
       PrintlnVal (Str ''c'')], lineOpen := False, activeLevel := Info\<rparr>)"
proof -
  let ?a = "O3SerialWriter_init\<lparr>out := Some []\<rparr>"
  let ?h = "[Print (ULong 5), Print (Chr CHR '' ''), Print (Str ''WARN''), Print (Str '': '')]"
  let ?s1 = "O3SerialWriter_init\<lparr>out := Some (?h @ [Print (Str ''a'')]),
       lineOpen := True, activeLevel := Warn\<rparr>"
  let ?s2 = "O3SerialWriter_init\<lparr>out := Some (?h @ [Print (Str ''a''), Print (Str ''b'')]),
       lineOpen := True, activeLevel := Warn\<rparr>"
  let ?cs = "[(Begin [] O3SerialWriterOptions_init, 0), (PrintWithLevel Warn (Str ''a''), 5),
        (PrintWithLevel Warn (Str ''b''), 6)]"
  have o: "out ?a = Some []" by simp
  have b: "buffers_ok ?a" "buffers_ok ?s2"
    by (simp_all add: buffers_ok_def prefixMaxLen_def partSepMaxLen_def)
  have c: "canWrite ?a Warn" "canWrite ?s1 Warn" "canWrite ?s2 (activeLevel ?s2)"
    by (simp_all add: canWrite_def)
  have l: "\<not> lineOpen ?a" by simp
  have 1: "printWithLevel Warn (Str ''a'') 5 ?a = Some ?s1"
    using printWithLevel_Some [of ?a "[]" Warn "Str ''a''" 5] c(1)
    by (simp add: ensureCalls_def headerCalls_def levelText_def)
  have 2: "printWithLevel Warn (Str ''b'') 6 ?s1 = Some ?s2"
    using printWithLevel_Some [of ?s1 "?h @ [Print (Str ''a'')]" Warn "Str ''b''" 6] c(2)
    by (simp add: ensureCalls_def)
  have r: "run ?cs O3SerialWriter_init = Some ?s2"
    using 1 2 by (simp add: begin_default)
  have lo: "lineOpen ?s2" by simp
  have o2: "out ?s2 = Some (?h @ [Print (Str ''a''), Print (Str ''b'')])" by simp
  note T = header_once_per_line [where cs = ?cs and s = ?s2 and a = ?a and tr = "[]"
      and L = Warn and vs = "[(Str ''a'', 5), (Str ''b'', 6)]" and w = "Str ''c''" and t' = 7
      and b = ?s2 and trb = "?h @ [Print (Str ''a''), Print (Str ''b'')]"]
  have E: "\<exists>cs1 c now cs2 s1 tr1 v body.
         ?cs = cs1 @ (c, now) # cs2 \<and> run cs1 O3SerialWriter_init = Some s1 \<and>
         out s1 = Some tr1 \<and>
         (c = PrintWithLevel (activeLevel ?s2) v \<or> c = CallPrint v \<and> activeLevel ?s2 = Info) \<and>
         (lineOpen s1 \<longrightarrow> activeLevel s1 \<noteq> activeLevel ?s2) \<and>
         out ?s2 = Some (tr1 @ (if lineOpen s1 then [Println] else []) @
                       headerCalls s1 (activeLevel ?s2) now @ Print v # body) \<and>
         (\<forall>e \<in> set body. \<not> is_break e \<and>
            (\<exists>c' t' v'. (c', t') \<in> set cs2 \<and>
               (c' = PrintWithLevel (activeLevel ?s2) v' \<or> c' = CallPrint v') \<and> e = Print v'))"
    by (rule T [THEN conjunct1, THEN mp, OF conjI [OF r lo]])
  have P: "printlnWithLevel Warn (Str ''c'') 7 ?s2 =
     Some (O3SerialWriter_init\<lparr>out := Some [Print (ULong 5), Print (Chr CHR '' ''),
       Print (Str ''WARN''), Print (Str '': ''), Print (Str ''a''), Print (Str ''b''),
       PrintlnVal (Str ''c'')], lineOpen := False, activeLevel := Info\<rparr>)"
    using T [THEN conjunct2, THEN conjunct1, THEN mp,
        OF conjI [OF o2 conjI [OF b(2) conjI [OF lo c(3)]]], THEN conjunct1]
    by simp
  have R': "run [(PrintWithLevel Warn (Str ''a''), 5), (PrintWithLevel Warn (Str ''b''), 6),
        (PrintlnWithLevel Warn (Str ''c''), 7)] ?a =
     Some (O3SerialWriter_init\<lparr>out := Some [Print (ULong 5), Print (Chr CHR '' ''),
       Print (Str ''WARN''), Print (Str '': ''), Print (Str ''a''), Print (Str ''b''),
       PrintlnVal (Str ''c'')], lineOpen := False, activeLevel := Info\<rparr>)"
    using T [THEN conjunct2, THEN conjunct2, THEN mp,
        OF conjI [OF o conjI [OF b(1) conjI [OF c(1) l]]]]
    by (simp add: headerCalls_def levelText_def)
  have E': "\<exists>cs1 c now cs2 s1 tr1 v body.
      ?cs = cs1 @ (c, now) # cs2 \<and>
      run cs1 O3SerialWriter_init = Some s1 \<and> out s1 = Some tr1 \<and>
      (c = PrintWithLevel Warn v \<or> c = CallPrint v \<and> Warn = Info) \<and>
      (lineOpen s1 \<longrightarrow> activeLevel s1 \<noteq> Warn) \<and>
      Some [Print (ULong 5), Print (Chr CHR '' ''),
        Print (Str ''WARN''), Print (Str '': ''), Print (Str ''a''), Print (Str ''b'')] =
        Some (tr1 @ (if lineOpen s1 then [Println] else []) @
              headerCalls s1 Warn now @ Print v # body) \<and>
      (\<forall>e \<in> set body. \<not> is_break e \<and>
         (\<exists>c' t' v'. (c', t') \<in> set cs2 \<and>
            (c' = PrintWithLevel Warn v' \<or> c' = CallPrint v') \<and> e = Print v'))"
    using E by simp
  have r': "run ?cs O3SerialWriter_init =
     Some (O3SerialWriter_init\<lparr>out := Some [Print (ULong 5), Print (Chr CHR '' ''),
       Print (Str ''WARN''), Print (Str '': ''), Print (Str ''a''), Print (Str ''b'')],
       lineOpen := True, activeLevel := Warn\<rparr>)"
    using r by simp
  have c3: "canWrite (O3SerialWriter_init\<lparr>out := Some [Print (ULong 5), Print (Chr CHR '' ''),
       Print (Str ''WARN''), Print (Str '': ''), Print (Str ''a''), Print (Str ''b'')],
       lineOpen := True, activeLevel := Warn\<rparr>) Warn"
    using c(3) by simp
  have b2: "buffers_ok (O3SerialWriter_init\<lparr>out := Some [Print (ULong 5), Print (Chr CHR '' ''),
       Print (Str ''WARN''), Print (Str '': ''), Print (Str ''a''), Print (Str ''b'')],
       lineOpen := True, activeLevel := Warn\<rparr>)"
    using b(2) by simp
  from r' lo E' c3 b2 P o b(1) c(1) l R' show ?thesis by (intro conjI) simp_all
qed

end
